theory Spec2Isabelle
  imports Main "HOL-Library.Word"
begin

section \<open>AutoSMP: the hotplug decision loop of drivers/cpufreq/autosmp.c\<close>

text \<open>
  The driver samples the frequency of every online core once per tick, compares the
  slowest and the fastest reading of a cluster with two thresholds and asks the kernel
  to bring one core online or to take one offline. A second pass trades little cores
  for a big core. A display notifier suspends and resumes the loop.

  The C code works on kernel globals. The model passes them explicitly in a record:
  the per-core facts the kernel answers (possible, online, cluster, frequencies), the
  driver's own globals (\<open>asmp_param\<close>, \<open>cycle\<close>, \<open>enabled\<close>), whether the
  delayed work is queued, and the sequence of requests the driver has sent to the
  kernel so far.
\<close>

subsection \<open>Data\<close>

type_synonym u32 = "32 word"

definition CLUSTER_LITTLE :: int where
  "CLUSTER_LITTLE = 0"

definition CLUSTER_BIG :: int where
  "CLUSTER_BIG = 1"

definition MAX_CPU_PER_CLUSTERS :: nat where
  "MAX_CPU_PER_CLUSTERS = 4"

definition DELAY_CHECK :: nat where
  "DELAY_CHECK = 20"

definition UINT_MAX :: u32 where
  "UINT_MAX = 4294967295"

text \<open>
  One entry per core identifier below \<open>nr_cpu_ids\<close>: the bit of the core in
  \<open>cpu_possible_mask\<close> and in \<open>cpu_online_mask\<close>, the value of
  \<open>topology_physical_package_id\<close>, and the values \<open>cpufreq_quick_get\<close> and
  \<open>cpufreq_quick_get_max\<close> answer for the core during the tick.
\<close>

record core =
  possible :: bool
  online :: bool
  package_id :: int
  quick_get :: u32
  quick_get_max :: u32

record asmp_param_struct =
  delay :: u32
  max_cpus :: u32
  min_cpus :: u32
  min_cpus_hmp :: u32
  cpufreq_up :: u32
  cpufreq_down :: u32
  cpufreq_up_hmp :: u32
  cpufreq_down_hmp :: u32
  cycle_up :: u32
  cycle_down :: u32

text \<open>The calls the driver makes into the kernel, in the order it makes them.\<close>

datatype request =
  CpuUp nat
  | CpuDown nat
  | QueueDelayedWork nat
  | CancelDelayedWorkSync
  | ScheduleAllUp

text \<open>
  \<open>stack_junk\<close> stands for the content of the uninitialised local arrays
  \<open>max_rate\<close>, \<open>up_rate\<close> and \<open>down_rate\<close> of \<open>asmp_work_fn\<close>: a slot
  the threshold loop never writes keeps this value.

  \<open>kernel_accepts n\<close> says whether the kernel carries out the request at position
  \<open>n\<close> of the trace, if the request is a valid one. A hotplug request can fail for
  reasons the driver does not see, and the driver never looks at the result of
  \<open>cpu_up\<close> or \<open>cpu_down\<close>.
\<close>

record state =
  cores :: "core list"
  asmp_param :: asmp_param_struct
  cycle :: u32
  enabled :: bool
  work_pending :: bool
  all_up_pending :: bool
  trace :: "request list"
  stack_junk :: u32
  kernel_accepts :: "nat \<Rightarrow> bool"

subsection \<open>The kernel services the driver calls\<close>

text \<open>
  Modelled from the spec: the services of its section 6 (Core Lifecycle Controller,
  Frequency Query Service, Topology Service) are kernel code outside the driver's file.
  Here they answer from the \<open>cores\<close> list, and the cpumask iterators walk the core
  identifiers in ascending order, as the kernel's do.
\<close>

definition nr_cpu_ids :: "state \<Rightarrow> nat" where
  "nr_cpu_ids s = length (cores s)"

text \<open>
  Mask bits at and above \<open>nr_cpu_ids\<close> are never set, so a test of such a bit
  (as the first round of the loop in \<open>asmp_suspend\<close> does) answers false.
\<close>

definition cpu_possible :: "state \<Rightarrow> nat \<Rightarrow> bool" where
  "cpu_possible s cpu = (cpu < nr_cpu_ids s \<and> possible (cores s ! cpu))"

definition cpu_online :: "state \<Rightarrow> nat \<Rightarrow> bool" where
  "cpu_online s cpu = (cpu < nr_cpu_ids s \<and> online (cores s ! cpu))"

definition topology_physical_package_id :: "state \<Rightarrow> nat \<Rightarrow> int" where
  "topology_physical_package_id s cpu = package_id (cores s ! cpu)"

definition cpufreq_quick_get :: "state \<Rightarrow> nat \<Rightarrow> u32" where
  "cpufreq_quick_get s cpu = (if cpu < nr_cpu_ids s then quick_get (cores s ! cpu) else 0)"

definition cpufreq_quick_get_max :: "state \<Rightarrow> nat \<Rightarrow> u32" where
  "cpufreq_quick_get_max s cpu =
     (if cpu < nr_cpu_ids s then quick_get_max (cores s ! cpu) else 0)"

definition for_each_possible_cpu :: "state \<Rightarrow> nat list" where
  "for_each_possible_cpu s = filter (cpu_possible s) [0..<nr_cpu_ids s]"

definition for_each_online_cpu :: "state \<Rightarrow> nat list" where
  "for_each_online_cpu s = filter (cpu_online s) [0..<nr_cpu_ids s]"

text \<open>
  \<open>cpumask_next_zero n cpu_online_mask\<close>: the first core after \<open>n\<close> whose online
  bit is clear, and \<open>nr_cpu_ids\<close> when there is none.
\<close>

definition cpumask_next_zero :: "nat \<Rightarrow> state \<Rightarrow> nat" where
  "cpumask_next_zero n s =
     (case filter (\<lambda>cpu. \<not> cpu_online s cpu) [Suc n..<nr_cpu_ids s] of
        [] \<Rightarrow> nr_cpu_ids s
      | cpu # _ \<Rightarrow> cpu)"

definition set_online :: "nat \<Rightarrow> bool \<Rightarrow> state \<Rightarrow> state" where
  "set_online cpu b s = s\<lparr>cores := (cores s)[cpu := (cores s ! cpu)\<lparr>online := b\<rparr>]\<rparr>"

text \<open>
  Modelled from the spec: \<open>online(core_id) -> bool\<close> of the Core Lifecycle Controller,
  the kernel's \<open>cpu_up\<close>. A request for a core that is not possible or is already
  online is refused; a request for a possible, offline core is carried out when the
  kernel accepts it and fails otherwise. The request is recorded either way, and the
  result is dropped, as the driver drops it.
\<close>

definition cpu_up :: "nat \<Rightarrow> state \<Rightarrow> state" where
  "cpu_up cpu s =
     (let s1 = s\<lparr>trace := trace s @ [CpuUp cpu]\<rparr>
      in if cpu_possible s cpu \<and> \<not> cpu_online s cpu \<and> kernel_accepts s (length (trace s))
         then set_online cpu True s1 else s1)"

text \<open>
  Modelled from the spec: \<open>offline(core_id) -> bool\<close> of the Core Lifecycle
  Controller, the kernel's \<open>cpu_down\<close>. The controller "must reject offlining the
  anchor core", and a request for a core that is not online is refused; a request for
  another online core is carried out when the kernel accepts it and fails otherwise.
  The request is recorded either way, and the result is dropped, as the driver drops it.
\<close>

definition cpu_down :: "nat \<Rightarrow> state \<Rightarrow> state" where
  "cpu_down cpu s =
     (let s1 = s\<lparr>trace := trace s @ [CpuDown cpu]\<rparr>
      in if cpu \<noteq> 0 \<and> cpu_online s cpu \<and> kernel_accepts s (length (trace s))
         then set_online cpu False s1 else s1)"

subsection \<open>Helpers of the driver\<close>

definition num_online_cluster_cpus :: "state \<Rightarrow> int \<Rightarrow> nat" where
  "num_online_cluster_cpus s cluster =
     length (filter (\<lambda>cpu. topology_physical_package_id s cpu = cluster)
               (for_each_online_cpu s))"

fun get_offline_core_loop :: "state \<Rightarrow> int \<Rightarrow> nat list \<Rightarrow> nat" where
  "get_offline_core_loop s cluster [] = 0"
| "get_offline_core_loop s cluster (cpu # cpus) =
     (if topology_physical_package_id s cpu \<noteq> cluster
      then get_offline_core_loop s cluster cpus
      else if \<not> cpu_online s cpu then cpu
      else get_offline_core_loop s cluster cpus)"

definition get_offline_core :: "state \<Rightarrow> int \<Rightarrow> nat" where
  "get_offline_core s cluster = get_offline_core_loop s cluster (for_each_possible_cpu s)"

fun get_online_core_loop :: "state \<Rightarrow> int \<Rightarrow> nat list \<Rightarrow> nat" where
  "get_online_core_loop s cluster [] = 0"
| "get_online_core_loop s cluster (cpu # cpus) =
     (if cpu = 0 then get_online_core_loop s cluster cpus
      else if topology_physical_package_id s cpu \<noteq> cluster
      then get_online_core_loop s cluster cpus
      else if cpu_online s cpu then cpu
      else get_online_core_loop s cluster cpus)"

definition get_online_core :: "state \<Rightarrow> int \<Rightarrow> nat" where
  "get_online_core s cluster = get_online_core_loop s cluster (for_each_possible_cpu s)"

definition reschedule_asmp_workq :: "state \<Rightarrow> state" where
  "reschedule_asmp_workq s =
     s\<lparr>work_pending := True, trace := trace s @ [QueueDelayedWork DELAY_CHECK]\<rparr>"

definition cancel_delayed_work_sync :: "state \<Rightarrow> state" where
  "cancel_delayed_work_sync s =
     s\<lparr>work_pending := False, trace := trace s @ [CancelDelayedWorkSync]\<rparr>"

subsection \<open>The tick: \<open>asmp_work_fn\<close>\<close>

text \<open>
  The threshold loop walks the possible cores and recomputes the limits of a cluster
  each time the cluster identifier differs from that of the core before. The products
  are unsigned 32-bit products and wrap; the division truncates.
\<close>

record limits =
  max_rate :: "int \<Rightarrow> u32"
  up_rate :: "int \<Rightarrow> u32"
  down_rate :: "int \<Rightarrow> u32"

fun limits_loop :: "state \<Rightarrow> int \<Rightarrow> limits \<Rightarrow> nat list \<Rightarrow> limits" where
  "limits_loop s prev_cluster l [] = l"
| "limits_loop s prev_cluster l (cpu # cpus) =
     (let cur_cluster = topology_physical_package_id s cpu
      in if cur_cluster = prev_cluster then limits_loop s prev_cluster l cpus
         else if cur_cluster = CLUSTER_LITTLE then
           (let m = cpufreq_quick_get_max s cpu
            in limits_loop s cur_cluster
                 (l\<lparr>max_rate := (max_rate l)(cur_cluster := m),
                    up_rate := (up_rate l)(cur_cluster := cpufreq_up (asmp_param s) * m div 100),
                    down_rate := (down_rate l)(cur_cluster := cpufreq_down (asmp_param s) * m div 100)\<rparr>)
                 cpus)
         else if cur_cluster = CLUSTER_BIG then
           (let m = cpufreq_quick_get_max s cpu
            in limits_loop s cur_cluster
                 (l\<lparr>max_rate := (max_rate l)(cur_cluster := m),
                    up_rate := (up_rate l)(cur_cluster := cpufreq_up_hmp (asmp_param s) * m div 100),
                    down_rate := (down_rate l)(cur_cluster := cpufreq_down_hmp (asmp_param s) * m div 100)\<rparr>)
                 cpus)
         else limits_loop s cur_cluster l cpus)"

definition calc_limits :: "state \<Rightarrow> limits" where
  "calc_limits s =
     limits_loop s (- 1)
       \<lparr>max_rate = (\<lambda>_. stack_junk s), up_rate = (\<lambda>_. stack_junk s),
        down_rate = (\<lambda>_. stack_junk s)\<rparr>
       (for_each_possible_cpu s)"

text \<open>
  The sampling loop. The source has it twice, once per cluster, with the same body; the
  cluster and the initial values of the three locals are the parameters here.
\<close>

record sample =
  slow_cpu :: nat
  slow_rate :: u32
  fast_rate :: u32

fun sample_loop :: "state \<Rightarrow> int \<Rightarrow> sample \<Rightarrow> nat list \<Rightarrow> sample" where
  "sample_loop s cluster a [] = a"
| "sample_loop s cluster a (cpu # cpus) =
     (if topology_physical_package_id s cpu \<noteq> cluster then sample_loop s cluster a cpus
      else if cpu \<noteq> 0 then
        (let rate = cpufreq_quick_get s cpu
         in if rate \<le> slow_rate a
            then sample_loop s cluster (a\<lparr>slow_cpu := cpu, slow_rate := rate\<rparr>) cpus
            else if rate > fast_rate a
            then sample_loop s cluster (a\<lparr>fast_rate := rate\<rparr>) cpus
            else sample_loop s cluster a cpus)
      else sample_loop s cluster a cpus)"

definition sample_little :: "state \<Rightarrow> sample" where
  "sample_little s =
     (let cpu0_rate = cpufreq_quick_get s 0;
          a = sample_loop s CLUSTER_LITTLE
                \<lparr>slow_cpu = 0, slow_rate = UINT_MAX, fast_rate = cpu0_rate\<rparr>
                (for_each_online_cpu s)
      in if cpu0_rate < slow_rate a then a\<lparr>slow_rate := cpu0_rate\<rparr> else a)"

definition sample_big :: "state \<Rightarrow> sample" where
  "sample_big s =
     (let cpubig_rate = cpufreq_quick_get s (get_online_core s CLUSTER_BIG);
          a = sample_loop s CLUSTER_BIG
                \<lparr>slow_cpu = 4, slow_rate = UINT_MAX, fast_rate = cpubig_rate\<rparr>
                (for_each_online_cpu s)
      in if cpubig_rate < slow_rate a then a\<lparr>slow_rate := cpubig_rate\<rparr> else a)"

text \<open>The decision for the little cluster (lines 163 to 210 of the source).\<close>

definition little_engine :: "limits \<Rightarrow> state \<Rightarrow> state" where
  "little_engine l s =
     (let nr_cpu_online = num_online_cluster_cpus s CLUSTER_LITTLE;
          a = sample_little s
      in if slow_rate a > up_rate l CLUSTER_LITTLE then
           (if nr_cpu_online < MAX_CPU_PER_CLUSTERS \<and> cycle s \<ge> cycle_up (asmp_param s)
            then
              (let cpu = cpumask_next_zero 0 s;
                   s1 = (if \<not> cpu_online s cpu then cpu_up cpu s else s)
               in s1\<lparr>cycle := 0\<rparr>)
            else s)
         else if slow_cpu a \<noteq> 0 \<and> fast_rate a < down_rate l CLUSTER_LITTLE then
           (if nr_cpu_online > unat (min_cpus (asmp_param s))
               \<and> cycle s \<ge> cycle_down (asmp_param s)
            then
              (let s1 = (if cpu_online s (slow_cpu a) \<and> slow_cpu a \<noteq> 0
                         then cpu_down (slow_cpu a) s else s)
               in s1\<lparr>cycle := 0\<rparr>)
            else s)
         else s)"

text \<open>The decision for the big cluster (lines 229 to 273).\<close>

definition big_engine :: "limits \<Rightarrow> state \<Rightarrow> state" where
  "big_engine l s =
     (let nr_cpu_online_hmp = num_online_cluster_cpus s CLUSTER_BIG;
          a = sample_big s
      in if slow_rate a > up_rate l CLUSTER_BIG then
           (if nr_cpu_online_hmp < MAX_CPU_PER_CLUSTERS \<and> cycle s \<ge> cycle_up (asmp_param s)
            then
              (let cpu = cpumask_next_zero 3 s;
                   s1 = (if \<not> cpu_online s cpu then cpu_up cpu s else s)
               in s1\<lparr>cycle := 0\<rparr>)
            else s)
         else if slow_cpu a \<noteq> 0 \<and> fast_rate a < down_rate l CLUSTER_BIG then
           (if nr_cpu_online_hmp > unat (min_cpus_hmp (asmp_param s))
               \<and> cycle s \<ge> cycle_down (asmp_param s) * 3
            then
              (let s1 = (if cpu_online s (slow_cpu a) then cpu_down (slow_cpu a) s else s)
               in s1\<lparr>cycle := 0\<rparr>)
            else s)
         else s)"

text \<open>
  The loop of the trade-down (lines 223 to 226): the local count is decremented
  whatever the kernel did with the request.
\<close>

fun trade_down :: "nat \<Rightarrow> state \<Rightarrow> state" where
  "trade_down nr_cpu_online s =
     (if nr_cpu_online > 2
      then trade_down (nr_cpu_online - 1) (cpu_down (get_online_core s CLUSTER_LITTLE) s)
      else s)"

declare trade_down.simps [simp del]

definition hmp_handler :: "limits \<Rightarrow> state \<Rightarrow> state" where
  "hmp_handler l s =
     (let nr_cpu_online = num_online_cluster_cpus s CLUSTER_LITTLE;
          nr_cpu_online_hmp = num_online_cluster_cpus s CLUSTER_BIG
      in if nr_cpu_online_hmp = 0 then
           (if nr_cpu_online \<ge> MAX_CPU_PER_CLUSTERS
            then trade_down nr_cpu_online (cpu_up (get_offline_core s CLUSTER_BIG) s)
            else s)
         else big_engine l s)"

definition asmp_work_fn :: "state \<Rightarrow> state" where
  "asmp_work_fn s =
     (let s0 = s\<lparr>cycle := cycle s + 1\<rparr>;
          l = calc_limits s0;
          s1 = little_engine l s0;
          s2 = hmp_handler l s1
      in reschedule_asmp_workq s2)"

subsection \<open>Suspend, resume and the display notifier\<close>

fun cpu_all_up_loop :: "nat list \<Rightarrow> state \<Rightarrow> state" where
  "cpu_all_up_loop [] s = s"
| "cpu_all_up_loop (cpu # cpus) s =
     cpu_all_up_loop cpus (if cpu_online s cpu then s else cpu_up cpu s)"

definition cpu_all_up :: "state \<Rightarrow> state" where
  "cpu_all_up s = cpu_all_up_loop (for_each_possible_cpu s) s"

definition schedule_all_up :: "state \<Rightarrow> state" where
  "schedule_all_up s = s\<lparr>all_up_pending := True, trace := trace s @ [ScheduleAllUp]\<rparr>"

text \<open>
  The loop of \<open>asmp_suspend\<close> counts \<open>cpu\<close> from \<open>nr_cpu_ids\<close> down to 0.
\<close>

fun suspend_loop :: "nat list \<Rightarrow> state \<Rightarrow> state" where
  "suspend_loop [] s = s"
| "suspend_loop (cpu # cpus) s =
     suspend_loop cpus (if \<not> cpu_online s cpu \<or> cpu = 0 then s else cpu_down cpu s)"

definition asmp_suspend :: "state \<Rightarrow> state" where
  "asmp_suspend s =
     (let s1 = suspend_loop (rev [0..<Suc (nr_cpu_ids s)]) s
      in if enabled s1 then cancel_delayed_work_sync s1 else s1)"

definition asmp_resume :: "state \<Rightarrow> state" where
  "asmp_resume s =
     (let s1 = schedule_all_up s
      in if enabled s1 then reschedule_asmp_workq s1 else s1)"

datatype lcd_event =
  LCD_EVENT_ON_START
  | LCD_EVENT_ON_END
  | LCD_EVENT_OFF_START
  | LCD_EVENT_OFF_END

fun lcd_notifier_call :: "lcd_event \<Rightarrow> state \<Rightarrow> state" where
  "lcd_notifier_call LCD_EVENT_ON_START s = asmp_resume s"
| "lcd_notifier_call LCD_EVENT_OFF_END s = asmp_suspend s"
| "lcd_notifier_call _ s = s"

text \<open>
  The timer fires the tick only while the delayed work is queued; running it takes it
  off the queue, and its last statement queues it again.
\<close>

definition timer_fires :: "state \<Rightarrow> state" where
  "timer_fires s = (if work_pending s then asmp_work_fn (s\<lparr>work_pending := False\<rparr>) else s)"

text \<open>
  \<open>set_enabled\<close>, the setter of the module parameter. \<open>param_set_bool\<close> stores the
  parsed value, or leaves the flag alone when the text is not a boolean (\<open>None\<close>
  here); the integer the setter returns is not modelled.
\<close>

definition set_enabled :: "bool option \<Rightarrow> state \<Rightarrow> state" where
  "set_enabled val s =
     (let s1 = (case val of Some b \<Rightarrow> s\<lparr>enabled := b\<rparr> | None \<Rightarrow> s)
      in if enabled s1 then reschedule_asmp_workq s1
         else schedule_all_up (cancel_delayed_work_sync s1))"

subsection \<open>The tick and the suspend transition running at the same time\<close>

text \<open>
  The tick runs on a workqueue and the display notifier in the context of its caller.
  Nothing in the source keeps one from running in the middle of the other: the tick
  gives up the hotplug lock (\<open>put_online_cpus\<close>, line 220) before the trade-down,
  and \<open>asmp_suspend\<close> cancels the queued tick only after its loop. The definitions
  below are the source's statements again, with one step \<open>env\<close> of the other context
  at one such place; with the identity for \<open>env\<close> they are \<open>hmp_handler\<close>,
  \<open>asmp_work_fn\<close> and \<open>asmp_suspend\<close>.
\<close>

definition hmp_handler_preempted :: "(state \<Rightarrow> state) \<Rightarrow> limits \<Rightarrow> state \<Rightarrow> state" where
  "hmp_handler_preempted env l s =
     (let nr_cpu_online = num_online_cluster_cpus s CLUSTER_LITTLE;
          nr_cpu_online_hmp = num_online_cluster_cpus s CLUSTER_BIG
      in if nr_cpu_online_hmp = 0 then
           (if nr_cpu_online \<ge> MAX_CPU_PER_CLUSTERS
            then trade_down nr_cpu_online (env (cpu_up (get_offline_core s CLUSTER_BIG) s))
            else s)
         else big_engine l s)"

definition asmp_work_fn_preempted :: "(state \<Rightarrow> state) \<Rightarrow> state \<Rightarrow> state" where
  "asmp_work_fn_preempted env s =
     (let s0 = s\<lparr>cycle := cycle s + 1\<rparr>;
          l = calc_limits s0;
          s1 = little_engine l s0;
          s2 = hmp_handler_preempted env l s1
      in reschedule_asmp_workq s2)"

text \<open>The loop of \<open>asmp_suspend\<close> alone (lines 297 to 301).\<close>

definition asmp_suspend_unplug :: "state \<Rightarrow> state" where
  "asmp_suspend_unplug s = suspend_loop (rev [0..<Suc (nr_cpu_ids s)]) s"

definition asmp_suspend_preempted :: "(state \<Rightarrow> state) \<Rightarrow> state \<Rightarrow> state" where
  "asmp_suspend_preempted env s =
     (let s1 = env (suspend_loop (rev [0..<Suc (nr_cpu_ids s)]) s)
      in if enabled s1 then cancel_delayed_work_sync s1 else s1)"

text \<open>The requests a step adds to the trace.\<close>

definition issued :: "(state \<Rightarrow> state) \<Rightarrow> state \<Rightarrow> request list" where
  "issued f s = drop (length (trace s)) (trace (f s))"

text \<open>
  The kernel keeps \<open>cpu_online_mask\<close> inside \<open>cpu_possible_mask\<close>.
\<close>

definition online_possible :: "state \<Rightarrow> bool" where
  "online_possible s = list_all (\<lambda>c. online c \<longrightarrow> possible c) (cores s)"

subsection \<open>Two readings of the spec's words\<close>

text \<open>
  The cores the spec calls unplug candidates of a cluster (online, in the cluster, not
  core 0), in sampling order, and the frequencies observed on the online members of a
  cluster.
\<close>

definition unplug_candidates :: "state \<Rightarrow> int \<Rightarrow> nat list" where
  "unplug_candidates s cluster =
     filter (\<lambda>cpu. cpu \<noteq> 0 \<and> topology_physical_package_id s cpu = cluster)
       (for_each_online_cpu s)"

definition observed_rates :: "state \<Rightarrow> int \<Rightarrow> u32 list" where
  "observed_rates s cluster =
     map (cpufreq_quick_get s)
       (filter (\<lambda>cpu. topology_physical_package_id s cpu = cluster) (for_each_online_cpu s))"

text \<open>
  The machine the constants of the source assume (3 as the last little core, 4 as the
  first big one): every core is possible, cores 0 to 3 form the little cluster, every
  further core is big, and core 0 is online.
\<close>

definition four_little_then_big :: "state \<Rightarrow> bool" where
  "four_little_then_big s =
     (list_all (\<lambda>cpu. cpu_possible s cpu
                  \<and> topology_physical_package_id s cpu
                      = (if cpu < 4 then CLUSTER_LITTLE else CLUSTER_BIG))
        [0..<nr_cpu_ids s]
      \<and> cpu_online s 0)"

subsection \<open>Example machines\<close>

text \<open>
  Four little cores (0 to 3) and four big cores (4 to 7), with the parameters the driver
  starts with, on a kernel that accepts every valid request.
\<close>

definition little_core :: "bool \<Rightarrow> u32 \<Rightarrow> core" where
  "little_core on r =
     \<lparr>possible = True, online = on, package_id = 0, quick_get = r, quick_get_max = 1000\<rparr>"

definition big_core :: "bool \<Rightarrow> u32 \<Rightarrow> core" where
  "big_core on r =
     \<lparr>possible = True, online = on, package_id = 1, quick_get = r, quick_get_max = 2000\<rparr>"

definition default_param :: asmp_param_struct where
  "default_param =
     \<lparr>delay = 0, max_cpus = 8, min_cpus = 1, min_cpus_hmp = 0, cpufreq_up = 60,
      cpufreq_down = 30, cpufreq_up_hmp = 90, cpufreq_down_hmp = 60, cycle_up = 1,
      cycle_down = 1\<rparr>"

definition machine :: "core list \<Rightarrow> state" where
  "machine cs =
     \<lparr>cores = cs, asmp_param = default_param, cycle = 0, enabled = True,
      work_pending = True, all_up_pending = False, trace = [], stack_junk = 0,
      kernel_accepts = (\<lambda>_. True)\<rparr>"

definition all_online :: state where
  "all_online =
     machine [little_core True 500, little_core True 500, little_core True 500,
       little_core True 500, big_core True 900, big_core True 900, big_core True 900,
       big_core True 900]"

definition only_anchor :: state where
  "only_anchor =
     machine [little_core True 500, little_core False 0, little_core False 0,
       little_core False 0, big_core False 0, big_core False 0, big_core False 0,
       big_core False 0]"

definition anchor_offline :: state where
  "anchor_offline =
     machine [little_core False 0, little_core True 500, little_core False 0,
       little_core False 0, big_core False 0, big_core False 0, big_core False 0,
       big_core False 0]"

definition at_up_limit :: state where
  "at_up_limit =
     (machine [little_core True 600, little_core True 600, little_core False 0,
       little_core False 0, big_core True 1800, big_core False 0, big_core False 0,
       big_core False 0])\<lparr>cycle := 5\<rparr>"

definition at_down_limit :: state where
  "at_down_limit =
     (machine [little_core True 300, little_core True 300, little_core False 0,
       little_core False 0, big_core True 1200, big_core False 0, big_core False 0,
       big_core False 0])\<lparr>cycle := 5\<rparr>"

definition big_idle :: state where
  "big_idle =
     (machine [little_core True 500, little_core False 0, little_core False 0,
       little_core False 0, big_core True 0, big_core False 0, big_core False 0,
       big_core False 0])\<lparr>cycle := 3\<rparr>"

definition big_busy :: state where
  "big_busy =
     (machine [little_core True 500, little_core False 0, little_core False 0,
       little_core False 0, big_core True 2000, big_core False 0, big_core False 0,
       big_core False 0])\<lparr>cycle := 1\<rparr>"

text \<open>A down-cycle count whose triple does not fit in 32 bits.\<close>

definition wrapped_cycle_down :: state where
  "wrapped_cycle_down =
     (machine [little_core True 500, little_core False 0, little_core False 0,
       little_core False 0, big_core True 0, big_core False 0, big_core False 0,
       big_core False 0])
     \<lparr>cycle := 1, asmp_param := default_param\<lparr>cycle_down := 1431655766\<rparr>\<rparr>"

definition tied :: state where
  "tied =
     machine [little_core True 500, little_core True 200, little_core True 200,
       little_core False 0, big_core True 700, big_core True 700, big_core False 0,
       big_core False 0]"

definition fast_missed :: state where
  "fast_missed =
     machine [little_core True 100, little_core True 500, little_core False 0,
       little_core False 0, big_core False 0, big_core False 0, big_core False 0,
       big_core False 0]"

definition saturated :: state where
  "saturated =
     (machine [little_core True 500, little_core True 500, little_core True 500,
       little_core True 500, big_core False 0, big_core False 0, big_core False 0,
       big_core False 0])\<lparr>cycle := 5\<rparr>"

definition below_min :: state where
  "below_min =
     (machine [little_core True 500, little_core True 500, little_core True 500,
       little_core True 500, big_core False 0, big_core False 0, big_core False 0,
       big_core False 0])\<lparr>asmp_param := default_param\<lparr>min_cpus := 3\<rparr>\<rparr>"

definition above_max :: state where
  "above_max =
     (machine [little_core True 500, little_core True 500, little_core False 0,
       little_core False 0, big_core False 0, big_core False 0, big_core False 0,
       big_core False 0])\<lparr>asmp_param := default_param\<lparr>max_cpus := 1\<rparr>\<rparr>"

text \<open>Every core online and the little cluster at its highest frequency.\<close>

definition busy_all :: state where
  "busy_all =
     machine [little_core True 1000, little_core True 1000, little_core True 1000,
       little_core True 1000, big_core True 900, big_core True 900, big_core True 900,
       big_core True 900]"

text \<open>A machine with a little cluster only.\<close>

definition little_only :: state where
  "little_only =
     machine [little_core True 500, little_core True 500, little_core True 500,
       little_core True 500]"

text \<open>A kernel that refuses the second request it gets and accepts every other one.\<close>

definition second_refused :: state where
  "second_refused = saturated\<lparr>kernel_accepts := (\<lambda>n. n \<noteq> 1)\<rparr>"

section \<open>Properties\<close>

subsection \<open>Requests and the fields they leave alone\<close>

lemma trace_cpu_up [simp]: "trace (cpu_up cpu s) = trace s @ [CpuUp cpu]"
  by (simp add: cpu_up_def set_online_def Let_def)

lemma trace_cpu_down [simp]: "trace (cpu_down cpu s) = trace s @ [CpuDown cpu]"
  by (simp add: cpu_down_def set_online_def Let_def)

lemma cycle_cpu_up [simp]: "cycle (cpu_up cpu s) = cycle s"
  by (simp add: cpu_up_def set_online_def Let_def)

lemma cycle_cpu_down [simp]: "cycle (cpu_down cpu s) = cycle s"
  by (simp add: cpu_down_def set_online_def Let_def)

lemma asmp_param_cpu_up [simp]: "asmp_param (cpu_up cpu s) = asmp_param s"
  by (simp add: cpu_up_def set_online_def Let_def)

lemma asmp_param_cpu_down [simp]: "asmp_param (cpu_down cpu s) = asmp_param s"
  by (simp add: cpu_down_def set_online_def Let_def)

lemma cpumask_next_zero_offline: "\<not> cpu_online s (cpumask_next_zero n s)"
proof (cases "filter (\<lambda>cpu. \<not> cpu_online s cpu) [Suc n..<nr_cpu_ids s]")
  case Nil
  then show ?thesis by (simp add: cpumask_next_zero_def cpu_online_def)
next
  case (Cons c cs)
  then have "c \<in> set (filter (\<lambda>cpu. \<not> cpu_online s cpu) [Suc n..<nr_cpu_ids s])" by simp
  then have "\<not> cpu_online s c" by simp
  with Cons show ?thesis by (simp add: cpumask_next_zero_def)
qed

text \<open>What each engine sends, branch by branch.\<close>

lemma issued_little_engine:
  "issued (little_engine l) s =
     (if slow_rate (sample_little s) > up_rate l CLUSTER_LITTLE then
        (if num_online_cluster_cpus s CLUSTER_LITTLE < MAX_CPU_PER_CLUSTERS
            \<and> cycle_up (asmp_param s) \<le> cycle s
         then [CpuUp (cpumask_next_zero 0 s)] else [])
      else if slow_cpu (sample_little s) \<noteq> 0
              \<and> fast_rate (sample_little s) < down_rate l CLUSTER_LITTLE then
        (if num_online_cluster_cpus s CLUSTER_LITTLE > unat (min_cpus (asmp_param s))
            \<and> cycle_down (asmp_param s) \<le> cycle s \<and> cpu_online s (slow_cpu (sample_little s))
         then [CpuDown (slow_cpu (sample_little s))] else [])
      else [])"
  by (simp add: issued_def little_engine_def Let_def cpumask_next_zero_offline)

lemma issued_big_engine:
  "issued (big_engine l) s =
     (if slow_rate (sample_big s) > up_rate l CLUSTER_BIG then
        (if num_online_cluster_cpus s CLUSTER_BIG < MAX_CPU_PER_CLUSTERS
            \<and> cycle_up (asmp_param s) \<le> cycle s
         then [CpuUp (cpumask_next_zero 3 s)] else [])
      else if slow_cpu (sample_big s) \<noteq> 0
              \<and> fast_rate (sample_big s) < down_rate l CLUSTER_BIG then
        (if num_online_cluster_cpus s CLUSTER_BIG > unat (min_cpus_hmp (asmp_param s))
            \<and> cycle_down (asmp_param s) * 3 \<le> cycle s \<and> cpu_online s (slow_cpu (sample_big s))
         then [CpuDown (slow_cpu (sample_big s))] else [])
      else [])"
  by (simp add: issued_def big_engine_def Let_def cpumask_next_zero_offline)

lemma unat_times3:
  fixes c :: u32
  assumes "unat c \<le> 1431655765"
  shows "unat (c * 3) = 3 * unat c"
proof -
  have "unat (c * 3) = (unat c * 3) mod 2 ^ 32"
    by (simp add: unat_word_ariths)
  also have "\<dots> = unat c * 3" using assms by simp
  finally show ?thesis by simp
qed

subsection \<open>The two search helpers\<close>

lemma get_offline_core_loop_none:
  "\<forall>cpu\<in>set cpus. topology_physical_package_id s cpu = cluster \<longrightarrow> cpu_online s cpu
   \<Longrightarrow> get_offline_core_loop s cluster cpus = 0"
  by (induction cpus) auto

lemma get_online_core_loop_none:
  "\<forall>cpu\<in>set cpus. cpu \<noteq> 0 \<and> topology_physical_package_id s cpu = cluster
      \<longrightarrow> \<not> cpu_online s cpu
   \<Longrightarrow> get_online_core_loop s cluster cpus = 0"
  by (induction cpus) auto

lemma for_each_possible_cpu_0:
  "cpu_possible s 0 \<Longrightarrow> for_each_possible_cpu s = 0 # filter (cpu_possible s) [1..<nr_cpu_ids s]"
  by (simp add: for_each_possible_cpu_def cpu_possible_def upt_conv_Cons)

text \<open>
  C10: \<open>get_offline_core\<close> returns 0 when every possible core of the cluster is online,
  and \<open>get_online_core\<close> returns 0 when no core of the cluster other than core 0 is
  online. The same 0 is the answer of \<open>get_offline_core\<close> when core 0 itself is the
  offline core found, so the caller cannot tell "none" from core 0.
\<close>

theorem no_candidate_is_zero:
  "((\<forall>cpu\<in>set (for_each_possible_cpu s).
        topology_physical_package_id s cpu = cluster \<longrightarrow> cpu_online s cpu)
      \<longrightarrow> get_offline_core s cluster = 0)
   \<and> ((\<forall>cpu\<in>set (for_each_possible_cpu s).
        cpu \<noteq> 0 \<and> topology_physical_package_id s cpu = cluster \<longrightarrow> \<not> cpu_online s cpu)
      \<longrightarrow> get_online_core s cluster = 0)
   \<and> (cpu_possible s 0 \<and> topology_physical_package_id s 0 = cluster \<and> \<not> cpu_online s 0
      \<longrightarrow> get_offline_core s cluster = 0)"
proof (intro conjI impI)
  assume "\<forall>cpu\<in>set (for_each_possible_cpu s).
        topology_physical_package_id s cpu = cluster \<longrightarrow> cpu_online s cpu"
  then show "get_offline_core s cluster = 0"
    unfolding get_offline_core_def by (rule get_offline_core_loop_none)
next
  assume "\<forall>cpu\<in>set (for_each_possible_cpu s).
        cpu \<noteq> 0 \<and> topology_physical_package_id s cpu = cluster \<longrightarrow> \<not> cpu_online s cpu"
  then show "get_online_core s cluster = 0"
    unfolding get_online_core_def by (rule get_online_core_loop_none)
next
  assume "cpu_possible s 0 \<and> topology_physical_package_id s 0 = cluster \<and> \<not> cpu_online s 0"
  then show "get_offline_core s cluster = 0"
    by (simp add: get_offline_core_def for_each_possible_cpu_0)
qed

theorem no_candidate_is_zero_witness:
  "list_all (\<lambda>cpu. topology_physical_package_id all_online cpu = CLUSTER_BIG
                \<longrightarrow> cpu_online all_online cpu)
     (for_each_possible_cpu all_online)
   \<and> get_offline_core all_online CLUSTER_BIG = 0
   \<and> list_all (\<lambda>cpu. cpu \<noteq> 0 \<and> topology_physical_package_id only_anchor cpu = CLUSTER_LITTLE
                \<longrightarrow> \<not> cpu_online only_anchor cpu)
     (for_each_possible_cpu only_anchor)
   \<and> get_online_core only_anchor CLUSTER_LITTLE = 0
   \<and> cpu_possible anchor_offline 0
   \<and> topology_physical_package_id anchor_offline 0 = CLUSTER_LITTLE
   \<and> \<not> cpu_online anchor_offline 0
   \<and> get_offline_core anchor_offline CLUSTER_LITTLE = 0"
proof -
  have c1: "list_all (\<lambda>cpu. topology_physical_package_id all_online cpu = CLUSTER_BIG
                \<longrightarrow> cpu_online all_online cpu)
     (for_each_possible_cpu all_online)"
    by code_simp
  have c2: "list_all (\<lambda>cpu. cpu \<noteq> 0 \<and> topology_physical_package_id only_anchor cpu = CLUSTER_LITTLE
                \<longrightarrow> \<not> cpu_online only_anchor cpu)
     (for_each_possible_cpu only_anchor)"
    by code_simp
  have h3: "cpu_possible anchor_offline 0
     \<and> topology_physical_package_id anchor_offline 0 = CLUSTER_LITTLE
     \<and> \<not> cpu_online anchor_offline 0"
    by code_simp
  have h1: "\<forall>cpu\<in>set (for_each_possible_cpu all_online).
        topology_physical_package_id all_online cpu = CLUSTER_BIG \<longrightarrow> cpu_online all_online cpu"
    using c1 by (simp only: list_all_iff)
  have h2: "\<forall>cpu\<in>set (for_each_possible_cpu only_anchor).
        cpu \<noteq> 0 \<and> topology_physical_package_id only_anchor cpu = CLUSTER_LITTLE
          \<longrightarrow> \<not> cpu_online only_anchor cpu"
    using c2 by (simp only: list_all_iff)
  show ?thesis
    using c1 c2 h1 h2 h3 no_candidate_is_zero [of all_online CLUSTER_BIG]
      no_candidate_is_zero [of only_anchor CLUSTER_LITTLE]
      no_candidate_is_zero [of anchor_offline CLUSTER_LITTLE]
    by blast
qed

subsection \<open>Strict comparisons at the thresholds\<close>

text \<open>
  C8: in both clusters, a slowest reading exactly equal to the up threshold sends no
  request to bring a core online, and a fastest reading exactly equal to the down
  threshold sends no request to take a core offline: the comparisons are strict.
\<close>

theorem thresholds_strict:
  "(slow_rate (sample_little s) = up_rate l CLUSTER_LITTLE
      \<longrightarrow> (\<forall>cpu. CpuUp cpu \<notin> set (issued (little_engine l) s)))
   \<and> (fast_rate (sample_little s) = down_rate l CLUSTER_LITTLE
      \<longrightarrow> (\<forall>cpu. CpuDown cpu \<notin> set (issued (little_engine l) s)))
   \<and> (slow_rate (sample_big s) = up_rate l CLUSTER_BIG
      \<longrightarrow> (\<forall>cpu. CpuUp cpu \<notin> set (issued (big_engine l) s)))
   \<and> (fast_rate (sample_big s) = down_rate l CLUSTER_BIG
      \<longrightarrow> (\<forall>cpu. CpuDown cpu \<notin> set (issued (big_engine l) s)))"
  by (simp add: issued_little_engine issued_big_engine)

theorem thresholds_strict_witness:
  "slow_rate (sample_little at_up_limit) = up_rate (calc_limits at_up_limit) CLUSTER_LITTLE
   \<and> CpuUp 2 \<notin> set (issued (little_engine (calc_limits at_up_limit)) at_up_limit)
   \<and> fast_rate (sample_little at_down_limit)
       = down_rate (calc_limits at_down_limit) CLUSTER_LITTLE
   \<and> CpuDown 1 \<notin> set (issued (little_engine (calc_limits at_down_limit)) at_down_limit)
   \<and> slow_rate (sample_big at_up_limit) = up_rate (calc_limits at_up_limit) CLUSTER_BIG
   \<and> CpuUp 5 \<notin> set (issued (big_engine (calc_limits at_up_limit)) at_up_limit)
   \<and> fast_rate (sample_big at_down_limit) = down_rate (calc_limits at_down_limit) CLUSTER_BIG
   \<and> CpuDown 4 \<notin> set (issued (big_engine (calc_limits at_down_limit)) at_down_limit)"
proof -
  have h1: "slow_rate (sample_little at_up_limit)
      = up_rate (calc_limits at_up_limit) CLUSTER_LITTLE"
    by code_simp
  have h2: "fast_rate (sample_little at_down_limit)
      = down_rate (calc_limits at_down_limit) CLUSTER_LITTLE"
    by code_simp
  have h3: "slow_rate (sample_big at_up_limit) = up_rate (calc_limits at_up_limit) CLUSTER_BIG"
    by code_simp
  have h4: "fast_rate (sample_big at_down_limit)
      = down_rate (calc_limits at_down_limit) CLUSTER_BIG"
    by code_simp
  show ?thesis
    using h1 h2 h3 h4 thresholds_strict [of at_up_limit "calc_limits at_up_limit"]
      thresholds_strict [of at_down_limit "calc_limits at_down_limit"]
    by blast
qed

subsection \<open>The cycle counts of the big cluster\<close>

text \<open>
  C9, as stated, fails: the source compares the counter with the 32-bit product
  \<open>cycle_down * 3\<close>. With a down-cycle count of 1431655766 the product wraps to 2, and
  a big core is taken offline at a counter value of 2.
\<close>

theorem scale_down_below_triple_counterexample:
  "trace (asmp_work_fn wrapped_cycle_down) = [CpuDown 4, QueueDelayedWork 20]
   \<and> num_online_cluster_cpus wrapped_cycle_down CLUSTER_BIG = 1
   \<and> cycle wrapped_cycle_down + 1 = 2
   \<and> \<not> 3 * unat (cycle_down (asmp_param wrapped_cycle_down))
          \<le> unat (cycle wrapped_cycle_down + 1)"
proof -
  have t: "trace (asmp_work_fn wrapped_cycle_down) = [CpuDown 4, QueueDelayedWork 20]"
    by code_simp
  have n: "num_online_cluster_cpus wrapped_cycle_down CLUSTER_BIG = 1"
    by code_simp
  have v: "cycle_down (asmp_param wrapped_cycle_down) = 1431655766
      \<and> cycle wrapped_cycle_down = 1"
    by (simp add: wrapped_cycle_down_def machine_def)
  have c: "cycle wrapped_cycle_down + 1 = 2"
    by (simp add: v)
  have "\<not> 3 * unat (cycle_down (asmp_param wrapped_cycle_down))
          \<le> unat (cycle wrapped_cycle_down + 1)"
    by (simp add: v)
  with t n c show ?thesis by simp
qed

text \<open>
  C9, amended: with at least one big core online the HMP handler is the big cluster's
  decision. It brings a core online exactly when the slowest reading is above the up
  threshold, fewer than four big cores are online and the counter has reached the
  configured up-cycle count, unmodified. It takes a core offline only when the counter
  has reached \<open>cycle_down * 3\<close> computed in 32 bits, which is three times the
  configured down-cycle count whenever that count is at most 1431655765.
\<close>

theorem big_engine_cycles:
  "(num_online_cluster_cpus s CLUSTER_BIG \<noteq> 0 \<longrightarrow> hmp_handler l s = big_engine l s)
   \<and> ((\<exists>cpu. CpuUp cpu \<in> set (issued (big_engine l) s))
        \<longleftrightarrow> slow_rate (sample_big s) > up_rate l CLUSTER_BIG
            \<and> num_online_cluster_cpus s CLUSTER_BIG < MAX_CPU_PER_CLUSTERS
            \<and> cycle_up (asmp_param s) \<le> cycle s)
   \<and> ((\<exists>cpu. CpuDown cpu \<in> set (issued (big_engine l) s))
        \<longrightarrow> cycle_down (asmp_param s) * 3 \<le> cycle s
            \<and> (unat (cycle_down (asmp_param s)) \<le> 1431655765
                 \<longrightarrow> 3 * unat (cycle_down (asmp_param s)) \<le> unat (cycle s)))"
proof (intro conjI)
  show "num_online_cluster_cpus s CLUSTER_BIG \<noteq> 0 \<longrightarrow> hmp_handler l s = big_engine l s"
    by (simp add: hmp_handler_def Let_def)
  show "(\<exists>cpu. CpuUp cpu \<in> set (issued (big_engine l) s))
        \<longleftrightarrow> slow_rate (sample_big s) > up_rate l CLUSTER_BIG
            \<and> num_online_cluster_cpus s CLUSTER_BIG < MAX_CPU_PER_CLUSTERS
            \<and> cycle_up (asmp_param s) \<le> cycle s"
    by (simp add: issued_big_engine)
  show "(\<exists>cpu. CpuDown cpu \<in> set (issued (big_engine l) s))
        \<longrightarrow> cycle_down (asmp_param s) * 3 \<le> cycle s
            \<and> (unat (cycle_down (asmp_param s)) \<le> 1431655765
                 \<longrightarrow> 3 * unat (cycle_down (asmp_param s)) \<le> unat (cycle s))"
  proof (intro impI conjI)
    assume a: "\<exists>cpu. CpuDown cpu \<in> set (issued (big_engine l) s)"
    then show w: "cycle_down (asmp_param s) * 3 \<le> cycle s"
      by (auto simp: issued_big_engine split: if_splits)
    assume "unat (cycle_down (asmp_param s)) \<le> 1431655765"
    then have "unat (cycle_down (asmp_param s) * 3) = 3 * unat (cycle_down (asmp_param s))"
      by (rule unat_times3)
    with w show "3 * unat (cycle_down (asmp_param s)) \<le> unat (cycle s)"
      by (simp add: word_le_nat_alt)
  qed
qed

theorem big_engine_cycles_witness:
  "num_online_cluster_cpus big_idle CLUSTER_BIG \<noteq> 0
   \<and> hmp_handler (calc_limits big_idle) big_idle = big_engine (calc_limits big_idle) big_idle
   \<and> CpuDown 4 \<in> set (issued (big_engine (calc_limits big_idle)) big_idle)
   \<and> unat (cycle_down (asmp_param big_idle)) \<le> 1431655765
   \<and> 3 * unat (cycle_down (asmp_param big_idle)) \<le> unat (cycle big_idle)
   \<and> up_rate (calc_limits big_busy) CLUSTER_BIG < slow_rate (sample_big big_busy)
   \<and> num_online_cluster_cpus big_busy CLUSTER_BIG < MAX_CPU_PER_CLUSTERS
   \<and> cycle_up (asmp_param big_busy) \<le> cycle big_busy
   \<and> (\<exists>cpu. CpuUp cpu \<in> set (issued (big_engine (calc_limits big_busy)) big_busy))"
proof -
  have h1: "num_online_cluster_cpus big_idle CLUSTER_BIG \<noteq> 0"
    by code_simp
  have h2: "CpuDown 4 \<in> set (issued (big_engine (calc_limits big_idle)) big_idle)"
    by code_simp
  have h3: "unat (cycle_down (asmp_param big_idle)) \<le> 1431655765"
    by (simp add: big_idle_def machine_def default_param_def)
  have h4: "up_rate (calc_limits big_busy) CLUSTER_BIG < slow_rate (sample_big big_busy)
   \<and> num_online_cluster_cpus big_busy CLUSTER_BIG < MAX_CPU_PER_CLUSTERS
   \<and> cycle_up (asmp_param big_busy) \<le> cycle big_busy"
    by code_simp
  show ?thesis
    using h1 h2 h3 h4 big_engine_cycles [of big_idle "calc_limits big_idle"]
      big_engine_cycles [of big_busy "calc_limits big_busy"]
    by blast
qed

subsection \<open>The sampling loop\<close>

lemma uint_max_top: "x \<le> UINT_MAX"
proof -
  have "unat x < 2 ^ 32" using unsigned_less [of x, where ?'a = nat] by simp
  then show ?thesis by (simp add: UINT_MAX_def word_le_nat_alt)
qed

lemma sample_loop_slow_rate_le: "slow_rate (sample_loop s cl a cpus) \<le> slow_rate a"
proof (induction cpus arbitrary: a)
  case Nil
  then show ?case by simp
next
  case (Cons x xs)
  show ?case
  proof (cases "topology_physical_package_id s x = cl \<and> x \<noteq> 0
      \<and> cpufreq_quick_get s x \<le> slow_rate a")
    case True
    have "slow_rate (sample_loop s cl (a\<lparr>slow_cpu := x, slow_rate := cpufreq_quick_get s x\<rparr>) xs)
        \<le> cpufreq_quick_get s x"
      using Cons.IH [of "a\<lparr>slow_cpu := x, slow_rate := cpufreq_quick_get s x\<rparr>"] by simp
    with True show ?thesis by (simp add: Let_def) (meson order_trans)
  next
    case False
    have "slow_rate (sample_loop s cl (a\<lparr>fast_rate := cpufreq_quick_get s x\<rparr>) xs) \<le> slow_rate a"
      using Cons.IH [of "a\<lparr>fast_rate := cpufreq_quick_get s x\<rparr>"] by simp
    with False Cons.IH [of a] show ?thesis by (auto simp: Let_def)
  qed
qed

lemma sample_loop_slow_rate_lower:
  "c \<in> set cpus \<Longrightarrow> c \<noteq> 0 \<Longrightarrow> topology_physical_package_id s c = cl
   \<Longrightarrow> slow_rate (sample_loop s cl a cpus) \<le> cpufreq_quick_get s c"
proof (induction cpus arbitrary: a)
  case Nil
  then show ?case by simp
next
  case (Cons x xs)
  show ?case
  proof (cases "c = x")
    case True
    show ?thesis
    proof (cases "cpufreq_quick_get s x \<le> slow_rate a")
      case le: True
      have "slow_rate (sample_loop s cl (a\<lparr>slow_cpu := x, slow_rate := cpufreq_quick_get s x\<rparr>) xs)
          \<le> cpufreq_quick_get s x"
        using sample_loop_slow_rate_le [of s cl "a\<lparr>slow_cpu := x, slow_rate := cpufreq_quick_get s x\<rparr>" xs]
        by simp
      with True le Cons.prems show ?thesis by (simp add: Let_def)
    next
      case gt: False
      have 1: "slow_rate (sample_loop s cl a xs) \<le> slow_rate a"
        by (rule sample_loop_slow_rate_le)
      have 2: "slow_rate (sample_loop s cl (a\<lparr>fast_rate := cpufreq_quick_get s x\<rparr>) xs) \<le> slow_rate a"
        using sample_loop_slow_rate_le [of s cl "a\<lparr>fast_rate := cpufreq_quick_get s x\<rparr>" xs] by simp
      from gt have "slow_rate a \<le> cpufreq_quick_get s x" by simp
      with 1 2 have "slow_rate (sample_loop s cl a xs) \<le> cpufreq_quick_get s x"
        "slow_rate (sample_loop s cl (a\<lparr>fast_rate := cpufreq_quick_get s x\<rparr>) xs) \<le> cpufreq_quick_get s x"
        by (meson order_trans)+
      with True gt Cons.prems show ?thesis by (simp add: Let_def)
    qed
  next
    case False
    with Cons.prems have "c \<in> set xs" by simp
    then show ?thesis using Cons.IH Cons.prems(2,3) by (simp add: Let_def)
  qed
qed

lemma sample_loop_slow_cpu:
  "(slow_cpu (sample_loop s cl a cpus) = slow_cpu a
      \<and> slow_rate (sample_loop s cl a cpus) = slow_rate a
      \<and> (\<forall>c\<in>set cpus. c \<noteq> 0 \<and> topology_physical_package_id s c = cl
            \<longrightarrow> slow_rate a < cpufreq_quick_get s c))
   \<or> (slow_cpu (sample_loop s cl a cpus) \<in> set cpus
      \<and> slow_cpu (sample_loop s cl a cpus) \<noteq> 0
      \<and> topology_physical_package_id s (slow_cpu (sample_loop s cl a cpus)) = cl
      \<and> cpufreq_quick_get s (slow_cpu (sample_loop s cl a cpus))
          = slow_rate (sample_loop s cl a cpus))"
proof (induction cpus arbitrary: a)
  case Nil
  then show ?case by simp
next
  case (Cons x xs)
  show ?case
  proof (cases "topology_physical_package_id s x = cl \<and> x \<noteq> 0")
    case cand: True
    show ?thesis
    proof (cases "cpufreq_quick_get s x \<le> slow_rate a")
      case True
      with cand Cons.IH [of "a\<lparr>slow_cpu := x, slow_rate := cpufreq_quick_get s x\<rparr>"]
      show ?thesis by (auto simp: Let_def)
    next
      case False
      with cand Cons.IH [of a] Cons.IH [of "a\<lparr>fast_rate := cpufreq_quick_get s x\<rparr>"]
      show ?thesis by (auto simp: Let_def)
    qed
  next
    case False
    with Cons.IH [of a] show ?thesis by (auto simp: Let_def)
  qed
qed

lemma sample_loop_tie_last:
  "sorted_wrt (<) cpus \<Longrightarrow> c \<in> set cpus \<Longrightarrow> c \<noteq> 0 \<Longrightarrow> topology_physical_package_id s c = cl
   \<Longrightarrow> cpufreq_quick_get s c = slow_rate (sample_loop s cl a cpus)
   \<Longrightarrow> c \<le> slow_cpu (sample_loop s cl a cpus)"
proof (induction cpus arbitrary: a)
  case Nil
  then show ?case by simp
next
  case (Cons x xs)
  from Cons.prems(1) have sx: "sorted_wrt (<) xs" and lt: "\<forall>y\<in>set xs. x < y" by simp_all
  show ?case
  proof (cases "c = x")
    case True
    show ?thesis
    proof (cases "cpufreq_quick_get s x \<le> slow_rate a")
      case le: True
      let ?a = "a\<lparr>slow_cpu := x, slow_rate := cpufreq_quick_get s x\<rparr>"
      have r: "sample_loop s cl a (x # xs) = sample_loop s cl ?a xs"
        using True le Cons.prems by (simp add: Let_def)
      from sample_loop_slow_cpu [of s cl ?a xs]
      have "slow_cpu (sample_loop s cl ?a xs) = x \<or> slow_cpu (sample_loop s cl ?a xs) \<in> set xs"
        by auto
      with lt r True show ?thesis by auto
    next
      case gt: False
      have "slow_rate (sample_loop s cl a (x # xs)) \<le> slow_rate a"
        by (rule sample_loop_slow_rate_le)
      with Cons.prems(5) True have "cpufreq_quick_get s x \<le> slow_rate a" by simp
      with gt show ?thesis by simp
    qed
  next
    case False
    with Cons.prems have cx: "c \<in> set xs" by simp
    show ?thesis
    proof (cases "topology_physical_package_id s x = cl \<and> x \<noteq> 0")
      case cand: True
      show ?thesis
      proof (cases "cpufreq_quick_get s x \<le> slow_rate a")
        case True
        with cand Cons.prems(3,4,5) Cons.IH [OF sx cx, of "a\<lparr>slow_cpu := x, slow_rate := cpufreq_quick_get s x\<rparr>"]
        show ?thesis by (simp add: Let_def)
      next
        case False
        with cand Cons.prems(3,4,5) Cons.IH [OF sx cx, of a]
          Cons.IH [OF sx cx, of "a\<lparr>fast_rate := cpufreq_quick_get s x\<rparr>"]
        show ?thesis by (simp add: Let_def split: if_splits)
      qed
    next
      case False
      with Cons.prems(3,4,5) Cons.IH [OF sx cx, of a] show ?thesis by (auto simp: Let_def)
    qed
  qed
qed

lemma sorted_for_each_online_cpu: "sorted_wrt (<) (for_each_online_cpu s)"
  by (simp add: for_each_online_cpu_def sorted_wrt_filter)

text \<open>The candidate of a loop started with \<open>UINT_MAX\<close>, on the online cores.\<close>

lemma sample_loop_candidate:
  assumes ne: "unplug_candidates s cl \<noteq> []"
    and init: "slow_rate a = UINT_MAX"
  shows "slow_cpu (sample_loop s cl a (for_each_online_cpu s)) \<in> set (unplug_candidates s cl)
    \<and> (\<forall>c\<in>set (unplug_candidates s cl).
          cpufreq_quick_get s (slow_cpu (sample_loop s cl a (for_each_online_cpu s)))
            \<le> cpufreq_quick_get s c
          \<and> (cpufreq_quick_get s c
                = cpufreq_quick_get s (slow_cpu (sample_loop s cl a (for_each_online_cpu s)))
               \<longrightarrow> c \<le> slow_cpu (sample_loop s cl a (for_each_online_cpu s))))"
proof -
  define r where "r = sample_loop s cl a (for_each_online_cpu s)"
  from ne obtain c0 where c0: "c0 \<in> set (for_each_online_cpu s)" "c0 \<noteq> 0"
      "topology_physical_package_id s c0 = cl"
    by (auto simp: unplug_candidates_def filter_empty_conv)
  have "\<not> slow_rate a < cpufreq_quick_get s c0"
    using uint_max_top [of "cpufreq_quick_get s c0"] init by simp
  with c0 sample_loop_slow_cpu [of s cl a "for_each_online_cpu s"]
  have found: "slow_cpu r \<in> set (for_each_online_cpu s)" "slow_cpu r \<noteq> 0"
      "topology_physical_package_id s (slow_cpu r) = cl"
      "cpufreq_quick_get s (slow_cpu r) = slow_rate r"
    unfolding r_def by blast+
  then have 1: "slow_cpu r \<in> set (unplug_candidates s cl)"
    by (simp add: unplug_candidates_def)
  have 2: "cpufreq_quick_get s (slow_cpu r) \<le> cpufreq_quick_get s c
      \<and> (cpufreq_quick_get s c = cpufreq_quick_get s (slow_cpu r) \<longrightarrow> c \<le> slow_cpu r)"
    if "c \<in> set (unplug_candidates s cl)" for c
  proof -
    from that have c: "c \<in> set (for_each_online_cpu s)" "c \<noteq> 0"
        "topology_physical_package_id s c = cl"
      by (simp_all add: unplug_candidates_def)
    have "slow_rate r \<le> cpufreq_quick_get s c"
      unfolding r_def using c by (rule sample_loop_slow_rate_lower)
    moreover have "cpufreq_quick_get s c = slow_rate r \<Longrightarrow> c \<le> slow_cpu r"
      unfolding r_def using sorted_for_each_online_cpu c by (rule sample_loop_tie_last)
    ultimately show ?thesis using found(4) by simp
  qed
  from 1 2 show ?thesis unfolding r_def by blast
qed

lemma slow_cpu_sample_little:
  "slow_cpu (sample_little s) =
     slow_cpu (sample_loop s CLUSTER_LITTLE
       \<lparr>slow_cpu = 0, slow_rate = UINT_MAX, fast_rate = cpufreq_quick_get s 0\<rparr>
       (for_each_online_cpu s))"
  by (simp add: sample_little_def Let_def)

lemma slow_cpu_sample_big:
  "slow_cpu (sample_big s) =
     slow_cpu (sample_loop s CLUSTER_BIG
       \<lparr>slow_cpu = 4, slow_rate = UINT_MAX,
        fast_rate = cpufreq_quick_get s (get_online_core s CLUSTER_BIG)\<rparr>
       (for_each_online_cpu s))"
  by (simp add: sample_big_def Let_def)

text \<open>
  C7, as stated, fails on ties: the loop replaces the candidate whenever a reading is
  less than or equal to the slowest so far, so of two cores tied for the lowest
  frequency the one sampled last stays.
\<close>

theorem first_tied_core_counterexample:
  "unplug_candidates tied CLUSTER_LITTLE = [1, 2]
   \<and> cpufreq_quick_get tied 1 = 200 \<and> cpufreq_quick_get tied 2 = 200
   \<and> slow_cpu (sample_little tied) = 2
   \<and> unplug_candidates tied CLUSTER_BIG = [4, 5]
   \<and> cpufreq_quick_get tied 4 = 700 \<and> cpufreq_quick_get tied 5 = 700
   \<and> slow_cpu (sample_big tied) = 5"
  by code_simp

text \<open>
  C7, amended: in both passes, when the cluster has a non-anchor online core, the unplug
  candidate is such a core with the lowest observed frequency, and every other
  non-anchor online core of the cluster with the same frequency has a lower identifier:
  ties go to the core sampled last.
\<close>

theorem unplug_candidate_slowest_last:
  "(unplug_candidates s CLUSTER_LITTLE \<noteq> [] \<longrightarrow>
      slow_cpu (sample_little s) \<in> set (unplug_candidates s CLUSTER_LITTLE)
      \<and> (\<forall>c\<in>set (unplug_candidates s CLUSTER_LITTLE).
            cpufreq_quick_get s (slow_cpu (sample_little s)) \<le> cpufreq_quick_get s c
            \<and> (cpufreq_quick_get s c = cpufreq_quick_get s (slow_cpu (sample_little s))
                 \<longrightarrow> c \<le> slow_cpu (sample_little s))))
   \<and> (unplug_candidates s CLUSTER_BIG \<noteq> [] \<longrightarrow>
      slow_cpu (sample_big s) \<in> set (unplug_candidates s CLUSTER_BIG)
      \<and> (\<forall>c\<in>set (unplug_candidates s CLUSTER_BIG).
            cpufreq_quick_get s (slow_cpu (sample_big s)) \<le> cpufreq_quick_get s c
            \<and> (cpufreq_quick_get s c = cpufreq_quick_get s (slow_cpu (sample_big s))
                 \<longrightarrow> c \<le> slow_cpu (sample_big s))))"
proof -
  have little: "slow_cpu (sample_little s) \<in> set (unplug_candidates s CLUSTER_LITTLE)
      \<and> (\<forall>c\<in>set (unplug_candidates s CLUSTER_LITTLE).
            cpufreq_quick_get s (slow_cpu (sample_little s)) \<le> cpufreq_quick_get s c
            \<and> (cpufreq_quick_get s c = cpufreq_quick_get s (slow_cpu (sample_little s))
                 \<longrightarrow> c \<le> slow_cpu (sample_little s)))"
    if "unplug_candidates s CLUSTER_LITTLE \<noteq> []"
    unfolding slow_cpu_sample_little using that by (rule sample_loop_candidate) simp
  have big: "slow_cpu (sample_big s) \<in> set (unplug_candidates s CLUSTER_BIG)
      \<and> (\<forall>c\<in>set (unplug_candidates s CLUSTER_BIG).
            cpufreq_quick_get s (slow_cpu (sample_big s)) \<le> cpufreq_quick_get s c
            \<and> (cpufreq_quick_get s c = cpufreq_quick_get s (slow_cpu (sample_big s))
                 \<longrightarrow> c \<le> slow_cpu (sample_big s)))"
    if "unplug_candidates s CLUSTER_BIG \<noteq> []"
    unfolding slow_cpu_sample_big using that by (rule sample_loop_candidate) simp
  from little big show ?thesis by blast
qed

theorem unplug_candidate_slowest_last_witness:
  "unplug_candidates tied CLUSTER_LITTLE \<noteq> []
   \<and> unplug_candidates tied CLUSTER_BIG \<noteq> []
   \<and> 1 \<in> set (unplug_candidates tied CLUSTER_LITTLE)
   \<and> cpufreq_quick_get tied (slow_cpu (sample_little tied)) \<le> cpufreq_quick_get tied 1
   \<and> cpufreq_quick_get tied 1 = cpufreq_quick_get tied (slow_cpu (sample_little tied))
   \<and> 1 \<le> slow_cpu (sample_little tied)
   \<and> 4 \<in> set (unplug_candidates tied CLUSTER_BIG)
   \<and> cpufreq_quick_get tied (slow_cpu (sample_big tied)) \<le> cpufreq_quick_get tied 4
   \<and> cpufreq_quick_get tied 4 = cpufreq_quick_get tied (slow_cpu (sample_big tied))
   \<and> 4 \<le> slow_cpu (sample_big tied)"
proof -
  have h1: "unplug_candidates tied CLUSTER_LITTLE \<noteq> []" by code_simp
  have h2: "unplug_candidates tied CLUSTER_BIG \<noteq> []" by code_simp
  have h3: "1 \<in> set (unplug_candidates tied CLUSTER_LITTLE)" by code_simp
  have h4: "4 \<in> set (unplug_candidates tied CLUSTER_BIG)" by code_simp
  have h5: "cpufreq_quick_get tied 1 = cpufreq_quick_get tied (slow_cpu (sample_little tied))"
    by code_simp
  have h6: "cpufreq_quick_get tied 4 = cpufreq_quick_get tied (slow_cpu (sample_big tied))"
    by code_simp
  show ?thesis
    using h1 h2 h3 h4 h5 h6 unplug_candidate_slowest_last [of tied]
    by blast
qed


text \<open>
  C6 does not hold for the fastest reading of the little cluster. The loop tests a
  reading against \<open>fast_rate\<close> only in the \<open>else\<close> branch of the test against
  \<open>slow_rate\<close>, so a core that sets a new minimum is never taken as the maximum. With
  core 0 at 100 and core 1 at 500, \<open>fast_rate\<close> stays at 100 although the maximum
  observed is 500, and the tick takes core 1 offline as if every core were below the
  down threshold of 300.
\<close>

theorem fast_rate_misses_maximum:
  "observed_rates fast_missed CLUSTER_LITTLE = [100, 500]
   \<and> Max (set (observed_rates fast_missed CLUSTER_LITTLE)) = 500
   \<and> fast_rate (sample_little fast_missed) = 100
   \<and> down_rate (calc_limits fast_missed) CLUSTER_LITTLE = 300
   \<and> trace (asmp_work_fn fast_missed) = [CpuDown 1, QueueDelayedWork 20]"
proof -
  have o: "observed_rates fast_missed CLUSTER_LITTLE = [100, 500]" by code_simp
  have m: "Max (set (observed_rates fast_missed CLUSTER_LITTLE)) = 500"
    unfolding o by simp
  have f: "fast_rate (sample_little fast_missed) = 100" by code_simp
  have d: "down_rate (calc_limits fast_missed) CLUSTER_LITTLE = 300" by code_simp
  have t: "trace (asmp_work_fn fast_missed) = [CpuDown 1, QueueDelayedWork 20]" by code_simp
  from o m f d t show ?thesis by simp
qed

subsection \<open>Suspend\<close>

lemma cpu_online_cpu_down:
  "cpu_online (cpu_down x s) c
     = (cpu_online s c \<and> \<not> (c = x \<and> x \<noteq> 0 \<and> kernel_accepts s (length (trace s))))"
  by (auto simp: cpu_down_def cpu_online_def nr_cpu_ids_def set_online_def Let_def nth_list_update)

lemma cpu_online_cpu_up:
  "cpu_online (cpu_up x s) c
     = (cpu_online s c \<or> (c = x \<and> cpu_possible s x \<and> kernel_accepts s (length (trace s))))"
  by (auto simp: cpu_up_def cpu_online_def cpu_possible_def nr_cpu_ids_def set_online_def
      Let_def nth_list_update)

lemma enabled_cpu_down [simp]: "enabled (cpu_down cpu s) = enabled s"
  by (simp add: cpu_down_def set_online_def Let_def)

lemma work_pending_cpu_down [simp]: "work_pending (cpu_down cpu s) = work_pending s"
  by (simp add: cpu_down_def set_online_def Let_def)

lemma nr_cpu_ids_cpu_down [simp]: "nr_cpu_ids (cpu_down cpu s) = nr_cpu_ids s"
  by (simp add: cpu_down_def set_online_def Let_def nr_cpu_ids_def)

lemma nr_cpu_ids_cpu_up [simp]: "nr_cpu_ids (cpu_up cpu s) = nr_cpu_ids s"
  by (simp add: cpu_up_def set_online_def Let_def nr_cpu_ids_def)

lemma kernel_accepts_cpu_down [simp]: "kernel_accepts (cpu_down cpu s) = kernel_accepts s"
  by (simp add: cpu_down_def set_online_def Let_def)

lemma kernel_accepts_cpu_up [simp]: "kernel_accepts (cpu_up cpu s) = kernel_accepts s"
  by (simp add: cpu_up_def set_online_def Let_def)

lemma suspend_loop_trace:
  "distinct cpus \<Longrightarrow>
   trace (suspend_loop cpus s)
     = trace s @ map CpuDown (filter (\<lambda>cpu. cpu_online s cpu \<and> cpu \<noteq> 0) cpus)"
proof (induction cpus arbitrary: s)
  case Nil
  then show ?case by simp
next
  case (Cons x xs)
  let ?s = "if \<not> cpu_online s x \<or> x = 0 then s else cpu_down x s"
  from Cons.prems have d: "distinct xs" and nx: "x \<notin> set xs" by simp_all
  have same: "filter (\<lambda>cpu. cpu_online ?s cpu \<and> cpu \<noteq> 0) xs
      = filter (\<lambda>cpu. cpu_online s cpu \<and> cpu \<noteq> 0) xs"
    using nx by (intro filter_cong) (auto simp: cpu_online_cpu_down)
  have "trace (suspend_loop (x # xs) s) = trace (suspend_loop xs ?s)" by simp
  also have "\<dots> = trace ?s @ map CpuDown (filter (\<lambda>cpu. cpu_online ?s cpu \<and> cpu \<noteq> 0) xs)"
    using d by (rule Cons.IH)
  also have "\<dots> = trace s @ map CpuDown (filter (\<lambda>cpu. cpu_online s cpu \<and> cpu \<noteq> 0) (x # xs))"
    unfolding same by simp
  finally show ?case .
qed

lemma suspend_loop_enabled [simp]: "enabled (suspend_loop cpus s) = enabled s"
  by (induction cpus arbitrary: s) simp_all

lemma suspend_loop_work_pending [simp]: "work_pending (suspend_loop cpus s) = work_pending s"
  by (induction cpus arbitrary: s) simp_all

lemma online_nonzero_down_to_1:
  "filter (\<lambda>cpu. cpu_online s cpu \<and> cpu \<noteq> 0) (rev [0..<Suc (nr_cpu_ids s)])
     = rev (filter (\<lambda>cpu. cpu \<noteq> 0) (for_each_online_cpu s))"
proof -
  have "\<not> cpu_online s (nr_cpu_ids s)" by (simp add: cpu_online_def)
  then show ?thesis
    by (simp add: for_each_online_cpu_def rev_filter [symmetric] conj_commute del: upt_Suc)
      (simp add: conj_commute)
qed

text \<open>
  For every machine the requests of \<open>asmp_suspend\<close> are the offline requests, from the
  highest online core down to core 1, and after them the cancel, sent only when the
  driver is enabled.
\<close>

lemma issued_asmp_suspend:
  "issued asmp_suspend s
     = map CpuDown (rev (filter (\<lambda>cpu. cpu \<noteq> 0) (for_each_online_cpu s)))
       @ (if enabled s then [CancelDelayedWorkSync] else [])"
proof -
  define s1 where "s1 = suspend_loop (rev [0..<Suc (nr_cpu_ids s)]) s"
  have d: "distinct (rev [0..<Suc (nr_cpu_ids s)])" by simp
  have tr: "trace s1
      = trace s @ map CpuDown (rev (filter (\<lambda>cpu. cpu \<noteq> 0) (for_each_online_cpu s)))"
    unfolding s1_def suspend_loop_trace [OF d] online_nonzero_down_to_1 ..
  have e: "enabled s1 = enabled s" by (simp add: s1_def)
  have def: "asmp_suspend s = (if enabled s1 then cancel_delayed_work_sync s1 else s1)"
    by (simp add: asmp_suspend_def s1_def Let_def)
  show ?thesis
    unfolding issued_def def by (simp add: e tr cancel_delayed_work_sync_def)
qed

lemma asmp_suspend_not_preempted: "asmp_suspend_preempted (\<lambda>s. s) s = asmp_suspend s"
  by (simp add: asmp_suspend_preempted_def asmp_suspend_def)

text \<open>
  The sibling path: disabling the driver through \<open>set_enabled\<close> cancels the tick first
  and only then asks for the cores, for every machine.
\<close>

lemma set_enabled_cancels_first:
  "issued (set_enabled (Some False)) s = [CancelDelayedWorkSync, ScheduleAllUp]"
  by (simp add: issued_def set_enabled_def Let_def schedule_all_up_def
      cancel_delayed_work_sync_def)

text \<open>
  C5 does not hold of the code. The display-off event runs \<open>asmp_suspend\<close>, which
  takes the cores offline first and cancels the tick last. The tick is still queued
  while the loop runs and after it; when the timer fires it between the loop and the
  cancel, the tick sees one busy core, brings core 1 back online, and the suspend
  transition returns with a non-anchor core online.
\<close>

theorem suspend_cancels_last:
  "issued (lcd_notifier_call LCD_EVENT_OFF_END) busy_all
     = [CpuDown 7, CpuDown 6, CpuDown 5, CpuDown 4, CpuDown 3, CpuDown 2, CpuDown 1,
        CancelDelayedWorkSync]
   \<and> work_pending (asmp_suspend_unplug busy_all)
   \<and> issued (asmp_suspend_preempted timer_fires) busy_all
     = [CpuDown 7, CpuDown 6, CpuDown 5, CpuDown 4, CpuDown 3, CpuDown 2, CpuDown 1,
        CpuUp 1, QueueDelayedWork 20, CancelDelayedWorkSync]
   \<and> cpu_online (asmp_suspend_preempted timer_fires busy_all) 1
   \<and> issued (set_enabled (Some False)) busy_all = [CancelDelayedWorkSync, ScheduleAllUp]"
proof -
  have a: "issued (lcd_notifier_call LCD_EVENT_OFF_END) busy_all
     = [CpuDown 7, CpuDown 6, CpuDown 5, CpuDown 4, CpuDown 3, CpuDown 2, CpuDown 1,
        CancelDelayedWorkSync]"
    by code_simp
  have b: "work_pending (asmp_suspend_unplug busy_all)" by code_simp
  have c: "issued (asmp_suspend_preempted timer_fires) busy_all
     = [CpuDown 7, CpuDown 6, CpuDown 5, CpuDown 4, CpuDown 3, CpuDown 2, CpuDown 1,
        CpuUp 1, QueueDelayedWork 20, CancelDelayedWorkSync]"
    by code_simp
  have d: "cpu_online (asmp_suspend_preempted timer_fires busy_all) 1" by code_simp
  have e: "issued (set_enabled (Some False)) busy_all = [CancelDelayedWorkSync, ScheduleAllUp]"
    by code_simp
  from a b c d e show ?thesis by simp
qed

subsection \<open>What a hotplug request changes\<close>

lemma cores_cpu_up_length [simp]: "length (cores (cpu_up x s)) = length (cores s)"
  by (simp add: cpu_up_def set_online_def Let_def)

lemma cores_cpu_down_length [simp]: "length (cores (cpu_down x s)) = length (cores s)"
  by (simp add: cpu_down_def set_online_def Let_def)

lemma possible_cpu_up [simp]: "possible (cores (cpu_up x s) ! c) = possible (cores s ! c)"
  by (cases "x < length (cores s)")
    (auto simp: cpu_up_def set_online_def Let_def nth_list_update cpu_possible_def
      cpu_online_def nr_cpu_ids_def)

lemma possible_cpu_down [simp]: "possible (cores (cpu_down x s) ! c) = possible (cores s ! c)"
  by (cases "x < length (cores s)")
    (auto simp: cpu_down_def set_online_def Let_def nth_list_update cpu_possible_def
      cpu_online_def nr_cpu_ids_def)

lemma cpu_possible_cpu_up [simp]: "cpu_possible (cpu_up x s) c = cpu_possible s c"
  by (simp add: cpu_possible_def nr_cpu_ids_def)

lemma cpu_possible_cpu_down [simp]: "cpu_possible (cpu_down x s) c = cpu_possible s c"
  by (simp add: cpu_possible_def nr_cpu_ids_def)

lemma topology_cpu_up [simp]:
  "topology_physical_package_id (cpu_up x s) c = topology_physical_package_id s c"
  by (cases "x < length (cores s)")
    (auto simp: topology_physical_package_id_def cpu_up_def set_online_def Let_def
      nth_list_update cpu_possible_def cpu_online_def nr_cpu_ids_def)

lemma topology_cpu_down [simp]:
  "topology_physical_package_id (cpu_down x s) c = topology_physical_package_id s c"
  by (cases "x < length (cores s)")
    (auto simp: topology_physical_package_id_def cpu_down_def set_online_def Let_def
      nth_list_update cpu_possible_def cpu_online_def nr_cpu_ids_def)

lemma for_each_possible_cpu_up [simp]:
  "for_each_possible_cpu (cpu_up x s) = for_each_possible_cpu s"
  by (simp add: for_each_possible_cpu_def cong: filter_cong)

lemma for_each_possible_cpu_down [simp]:
  "for_each_possible_cpu (cpu_down x s) = for_each_possible_cpu s"
  by (simp add: for_each_possible_cpu_def cong: filter_cong)

text \<open>Fields of the state other than \<open>cores\<close> do not matter to what the kernel answers.\<close>

lemma cpu_online_cores: "cores t = cores s \<Longrightarrow> cpu_online t = cpu_online s"
  by (auto simp: cpu_online_def nr_cpu_ids_def fun_eq_iff)

lemma num_online_cores:
  "cores t = cores s \<Longrightarrow> num_online_cluster_cpus t cl = num_online_cluster_cpus s cl"
  by (simp add: num_online_cluster_cpus_def for_each_online_cpu_def nr_cpu_ids_def
      topology_physical_package_id_def cpu_online_cores [of t s])

lemma online_possible_cores: "cores t = cores s \<Longrightarrow> online_possible t = online_possible s"
  by (simp add: online_possible_def)

subsection \<open>Counting\<close>

lemma num_online_card:
  "num_online_cluster_cpus s cl
     = card {cpu. cpu_online s cpu \<and> topology_physical_package_id s cpu = cl}"
proof -
  have "set (filter (\<lambda>cpu. topology_physical_package_id s cpu = cl) (for_each_online_cpu s))
      = {cpu. cpu_online s cpu \<and> topology_physical_package_id s cpu = cl}"
    by (auto simp: for_each_online_cpu_def cpu_online_def)
  moreover have "distinct (filter (\<lambda>cpu. topology_physical_package_id s cpu = cl)
      (for_each_online_cpu s))"
    by (simp add: for_each_online_cpu_def)
  ultimately show ?thesis
    unfolding num_online_cluster_cpus_def by (metis distinct_card)
qed

lemma finite_online: "finite {cpu. cpu_online s cpu \<and> P cpu}"
proof (rule finite_subset)
  show "{cpu. cpu_online s cpu \<and> P cpu} \<subseteq> {0..<nr_cpu_ids s}"
    by (auto simp: cpu_online_def)
qed simp

text \<open>A request the kernel carries out moves the count of the core's cluster by one.\<close>

lemma num_online_cpu_down:
  assumes "x \<noteq> 0" "cpu_online s x" "kernel_accepts s (length (trace s))"
  shows "num_online_cluster_cpus (cpu_down x s) cl
     = (if topology_physical_package_id s x = cl then num_online_cluster_cpus s cl - 1
        else num_online_cluster_cpus s cl)"
proof -
  have "{cpu. cpu_online (cpu_down x s) cpu \<and> topology_physical_package_id (cpu_down x s) cpu = cl}
      = {cpu. cpu_online s cpu \<and> topology_physical_package_id s cpu = cl} - {x}"
    using assms by (auto simp: cpu_online_cpu_down)
  then show ?thesis
    using assms by (auto simp: num_online_card finite_online)
qed

lemma num_online_cpu_up:
  assumes "cpu_possible s x" "\<not> cpu_online s x" "kernel_accepts s (length (trace s))"
  shows "num_online_cluster_cpus (cpu_up x s) cl
     = (if topology_physical_package_id s x = cl then num_online_cluster_cpus s cl + 1
        else num_online_cluster_cpus s cl)"
proof -
  have "{cpu. cpu_online (cpu_up x s) cpu \<and> topology_physical_package_id (cpu_up x s) cpu = cl}
      = (if topology_physical_package_id s x = cl
         then insert x {cpu. cpu_online s cpu \<and> topology_physical_package_id s cpu = cl}
         else {cpu. cpu_online s cpu \<and> topology_physical_package_id s cpu = cl})"
    using assms by (auto simp: cpu_online_cpu_up)
  then show ?thesis
    using assms by (auto simp: num_online_card finite_online)
qed

text \<open>A request that is refused, for whatever reason, leaves every count as it was.\<close>

lemma num_online_cpu_down_idle:
  assumes "x = 0 \<or> \<not> cpu_online s x \<or> \<not> kernel_accepts s (length (trace s))"
  shows "num_online_cluster_cpus (cpu_down x s) cl = num_online_cluster_cpus s cl"
proof -
  have "cpu_online (cpu_down x s) = cpu_online s"
    using assms by (auto simp: cpu_online_cpu_down fun_eq_iff)
  then show ?thesis by (simp add: num_online_card)
qed

lemma num_online_cpu_up_idle:
  assumes "\<not> cpu_possible s x \<or> cpu_online s x \<or> \<not> kernel_accepts s (length (trace s))"
  shows "num_online_cluster_cpus (cpu_up x s) cl = num_online_cluster_cpus s cl"
proof -
  have "cpu_online (cpu_up x s) = cpu_online s"
    using assms by (auto simp: cpu_online_cpu_up fun_eq_iff)
  then show ?thesis by (simp add: num_online_card)
qed

text \<open>Whatever the kernel answers:\<close>

lemma num_online_cpu_down_bounds:
  "num_online_cluster_cpus (cpu_down x s) cl \<le> num_online_cluster_cpus s cl
   \<and> num_online_cluster_cpus s cl - 1 \<le> num_online_cluster_cpus (cpu_down x s) cl"
  by (cases "x \<noteq> 0 \<and> cpu_online s x \<and> kernel_accepts s (length (trace s))")
    (auto simp: num_online_cpu_down num_online_cpu_down_idle)

lemma num_online_cpu_up_bounds:
  "num_online_cluster_cpus s cl \<le> num_online_cluster_cpus (cpu_up x s) cl
   \<and> num_online_cluster_cpus (cpu_up x s) cl \<le> num_online_cluster_cpus s cl + 1"
  by (cases "cpu_possible s x \<and> \<not> cpu_online s x \<and> kernel_accepts s (length (trace s))")
    (auto simp: num_online_cpu_up num_online_cpu_up_idle)

lemma num_online_cpu_down_other:
  "topology_physical_package_id s x \<noteq> cl
   \<Longrightarrow> num_online_cluster_cpus (cpu_down x s) cl = num_online_cluster_cpus s cl"
  by (cases "x \<noteq> 0 \<and> cpu_online s x \<and> kernel_accepts s (length (trace s))")
    (auto simp: num_online_cpu_down num_online_cpu_down_idle)

lemma num_online_cpu_up_other:
  "topology_physical_package_id s x \<noteq> cl
   \<Longrightarrow> num_online_cluster_cpus (cpu_up x s) cl = num_online_cluster_cpus s cl"
  by (cases "cpu_possible s x \<and> \<not> cpu_online s x \<and> kernel_accepts s (length (trace s))")
    (auto simp: num_online_cpu_up num_online_cpu_up_idle)

lemma online_possible_iff:
  "online_possible s \<longleftrightarrow> (\<forall>cpu. cpu_online s cpu \<longrightarrow> cpu_possible s cpu)"
  by (auto simp: online_possible_def list_all_length cpu_online_def cpu_possible_def
      nr_cpu_ids_def)

lemma online_possible_cpu_up: "online_possible s \<Longrightarrow> online_possible (cpu_up x s)"
  by (auto simp: online_possible_iff cpu_online_cpu_up)

lemma online_possible_cpu_down: "online_possible s \<Longrightarrow> online_possible (cpu_down x s)"
  by (auto simp: online_possible_iff cpu_online_cpu_down)

subsection \<open>What the search helpers find\<close>

lemma get_online_core_loop_found:
  "\<exists>c\<in>set cpus. c \<noteq> 0 \<and> topology_physical_package_id s c = cl \<and> cpu_online s c
   \<Longrightarrow> get_online_core_loop s cl cpus \<noteq> 0
       \<and> topology_physical_package_id s (get_online_core_loop s cl cpus) = cl
       \<and> cpu_online s (get_online_core_loop s cl cpus)"
  by (induction cpus) auto

lemma get_offline_core_loop_found:
  "\<exists>c\<in>set cpus. topology_physical_package_id s c = cl \<and> \<not> cpu_online s c
   \<Longrightarrow> get_offline_core_loop s cl cpus \<in> set cpus
       \<and> topology_physical_package_id s (get_offline_core_loop s cl cpus) = cl
       \<and> \<not> cpu_online s (get_offline_core_loop s cl cpus)"
  by (induction cpus) auto

lemma two_online_one_nonzero:
  assumes "2 \<le> num_online_cluster_cpus s cl"
  shows "\<exists>c. c \<noteq> 0 \<and> cpu_online s c \<and> topology_physical_package_id s c = cl"
proof (rule ccontr)
  assume "\<not> ?thesis"
  then have "{cpu. cpu_online s cpu \<and> topology_physical_package_id s cpu = cl} \<subseteq> {0}"
    by auto
  then have "card {cpu. cpu_online s cpu \<and> topology_physical_package_id s cpu = cl} \<le> card {0::nat}"
    by (intro card_mono) simp_all
  with assms show False by (simp add: num_online_card)
qed

lemma get_online_core_found:
  assumes "online_possible s" "2 \<le> num_online_cluster_cpus s cl"
  shows "get_online_core s cl \<noteq> 0
       \<and> topology_physical_package_id s (get_online_core s cl) = cl
       \<and> cpu_online s (get_online_core s cl)"
proof -
  from two_online_one_nonzero [OF assms(2)] obtain c where
    c: "c \<noteq> 0" "cpu_online s c" "topology_physical_package_id s c = cl" by blast
  with assms(1) have "cpu_possible s c" by (simp add: online_possible_iff)
  then have "c \<in> set (for_each_possible_cpu s)"
    by (simp add: for_each_possible_cpu_def cpu_possible_def)
  with c show ?thesis
    unfolding get_online_core_def by (intro get_online_core_loop_found) blast
qed

subsection \<open>The trade-down and the anchor\<close>

lemma clusters_differ [simp]: "CLUSTER_LITTLE \<noteq> CLUSTER_BIG" "CLUSTER_BIG \<noteq> CLUSTER_LITTLE"
  by (simp_all add: CLUSTER_LITTLE_def CLUSTER_BIG_def)

lemma trade_down_static:
  "cpu_possible (trade_down nr s) = cpu_possible s
   \<and> topology_physical_package_id (trade_down nr s) = topology_physical_package_id s
   \<and> nr_cpu_ids (trade_down nr s) = nr_cpu_ids s
   \<and> cycle (trade_down nr s) = cycle s
   \<and> asmp_param (trade_down nr s) = asmp_param s
   \<and> kernel_accepts (trade_down nr s) = kernel_accepts s"
proof (induction nr s rule: trade_down.induct)
  case (1 nr s)
  show ?case
  proof (cases "2 < nr")
    case True
    then have "trade_down nr s = trade_down (nr - 1) (cpu_down (get_online_core s CLUSTER_LITTLE) s)"
      by (subst trade_down.simps) simp
    with "1.IH" [OF True] show ?thesis by (simp add: fun_eq_iff)
  next
    case False
    then have "trade_down nr s = s" by (subst trade_down.simps) simp
    then show ?thesis by simp
  qed
qed

text \<open>
  The loop started with a count that is not above the number of little cores online:
  every request names an online little core other than core 0, and each takes at most
  one core offline, exactly one when the kernel accepts every request.
\<close>

lemma trade_down_props:
  "online_possible s \<Longrightarrow> nr \<le> num_online_cluster_cpus s CLUSTER_LITTLE \<Longrightarrow>
     num_online_cluster_cpus (trade_down nr s) CLUSTER_LITTLE
       \<le> num_online_cluster_cpus s CLUSTER_LITTLE
     \<and> num_online_cluster_cpus s CLUSTER_LITTLE - (nr - 2)
       \<le> num_online_cluster_cpus (trade_down nr s) CLUSTER_LITTLE
     \<and> ((\<forall>n. kernel_accepts s n) \<longrightarrow>
          num_online_cluster_cpus (trade_down nr s) CLUSTER_LITTLE
            = num_online_cluster_cpus s CLUSTER_LITTLE - (nr - 2))
     \<and> num_online_cluster_cpus (trade_down nr s) CLUSTER_BIG
       = num_online_cluster_cpus s CLUSTER_BIG
     \<and> online_possible (trade_down nr s)
     \<and> cpu_online (trade_down nr s) 0 = cpu_online s 0
     \<and> (\<exists>ds. trace (trade_down nr s) = trace s @ map CpuDown ds \<and> 0 \<notin> set ds
           \<and> length ds = nr - 2)"
proof (induction nr s rule: trade_down.induct)
  case (1 nr s)
  let ?n = "num_online_cluster_cpus s CLUSTER_LITTLE"
  show ?case
  proof (cases "2 < nr")
    case True
    let ?c = "get_online_core s CLUSTER_LITTLE"
    let ?s = "cpu_down ?c s"
    let ?m = "num_online_cluster_cpus ?s CLUSTER_LITTLE"
    let ?t = "trade_down (nr - 1) ?s"
    from True "1.prems"(2) have "2 \<le> ?n" by simp
    with "1.prems"(1) have c: "?c \<noteq> 0" "topology_physical_package_id s ?c = CLUSTER_LITTLE"
        "cpu_online s ?c"
      using get_online_core_found [of s CLUSTER_LITTLE] by simp_all
    have lb: "?m \<le> ?n" "?n - 1 \<le> ?m"
      using num_online_cpu_down_bounds [of ?c s CLUSTER_LITTLE] by simp_all
    have exact: "?m = ?n - 1" if "\<forall>n. kernel_accepts s n"
      using c that by (simp add: num_online_cpu_down)
    have big: "num_online_cluster_cpus ?s CLUSTER_BIG = num_online_cluster_cpus s CLUSTER_BIG"
      using c(2) by (simp add: num_online_cpu_down_other)
    have op: "online_possible ?s"
      using "1.prems"(1) by (rule online_possible_cpu_down)
    have le: "nr - 1 \<le> ?m"
      using "1.prems"(2) lb(2) by simp
    have zero: "cpu_online ?s 0 = cpu_online s 0"
      using c(1) by (auto simp: cpu_online_cpu_down)
    have unfold: "trade_down nr s = ?t"
      using True by (subst trade_down.simps) simp
    from "1.IH" [OF True op le] obtain ds where
      ih: "num_online_cluster_cpus ?t CLUSTER_LITTLE \<le> ?m"
          "?m - (nr - 1 - 2) \<le> num_online_cluster_cpus ?t CLUSTER_LITTLE"
          "(\<forall>n. kernel_accepts ?s n) \<longrightarrow>
             num_online_cluster_cpus ?t CLUSTER_LITTLE = ?m - (nr - 1 - 2)"
          "num_online_cluster_cpus ?t CLUSTER_BIG = num_online_cluster_cpus ?s CLUSTER_BIG"
          "online_possible ?t"
          "cpu_online ?t 0 = cpu_online ?s 0"
          "trace ?t = trace ?s @ map CpuDown ds"
          "0 \<notin> set ds" "length ds = nr - 1 - 2"
      by blast
    have tr: "trace ?t = trace s @ map CpuDown (?c # ds)"
      unfolding ih(7) by simp
    have "0 \<notin> set (?c # ds)" "length (?c # ds) = nr - 2"
      using c(1) ih(8,9) True by auto
    with tr have ex: "\<exists>ds. trace ?t = trace s @ map CpuDown ds \<and> 0 \<notin> set ds
           \<and> length ds = nr - 2"
      by blast
    have up: "num_online_cluster_cpus ?t CLUSTER_LITTLE \<le> ?n"
      using ih(1) lb(1) by simp
    have lo: "?n - (nr - 2) \<le> num_online_cluster_cpus ?t CLUSTER_LITTLE"
      using ih(2) lb(2) True by arith
    have ex2: "(\<forall>n. kernel_accepts s n) \<longrightarrow>
        num_online_cluster_cpus ?t CLUSTER_LITTLE = ?n - (nr - 2)"
    proof
      assume a: "\<forall>n. kernel_accepts s n"
      then have "num_online_cluster_cpus ?t CLUSTER_LITTLE = ?m - (nr - 1 - 2)"
        using ih(3) by simp
      with exact [OF a] True show "num_online_cluster_cpus ?t CLUSTER_LITTLE = ?n - (nr - 2)"
        by simp
    qed
    from up lo ex2 ex ih(4,5,6) big zero show ?thesis unfolding unfold by simp
  next
    case False
    then have "trade_down nr s = s" by (subst trade_down.simps) simp
    with False "1.prems"(1) show ?thesis by simp
  qed
qed

text \<open>
  The requests of the HMP handler, run without interruption, never name core 0 for
  offlining.
\<close>

lemma hmp_handler_trace:
  assumes "online_possible s"
  shows "\<exists>rs. trace (hmp_handler l s) = trace s @ rs \<and> CpuDown 0 \<notin> set rs"
proof (cases "num_online_cluster_cpus s CLUSTER_BIG = 0")
  case True
  show ?thesis
  proof (cases "MAX_CPU_PER_CLUSTERS \<le> num_online_cluster_cpus s CLUSTER_LITTLE")
    case full: True
    let ?u = "cpu_up (get_offline_core s CLUSTER_BIG) s"
    have "online_possible ?u" using assms by (rule online_possible_cpu_up)
    moreover have "num_online_cluster_cpus s CLUSTER_LITTLE
        \<le> num_online_cluster_cpus ?u CLUSTER_LITTLE"
      using num_online_cpu_up_bounds [of s CLUSTER_LITTLE] by simp
    ultimately obtain ds where
      "trace (trade_down (num_online_cluster_cpus s CLUSTER_LITTLE) ?u) = trace ?u @ map CpuDown ds"
      "0 \<notin> set ds"
      using trade_down_props [of ?u "num_online_cluster_cpus s CLUSTER_LITTLE"] by blast
    then have "trace (hmp_handler l s)
        = trace s @ (CpuUp (get_offline_core s CLUSTER_BIG) # map CpuDown ds)
      \<and> CpuDown 0 \<notin> set (CpuUp (get_offline_core s CLUSTER_BIG) # map CpuDown ds)"
      using True full by (auto simp: hmp_handler_def Let_def)
    then show ?thesis by blast
  next
    case False
    with True have "hmp_handler l s = s" by (simp add: hmp_handler_def Let_def)
    then show ?thesis by simp
  qed
next
  case False
  then have h: "hmp_handler l s = big_engine l s" by (simp add: hmp_handler_def Let_def)
  have "trace (big_engine l s) = trace s @ issued (big_engine l) s"
    by (simp add: issued_def big_engine_def Let_def)
  moreover have "CpuDown 0 \<notin> set (issued (big_engine l) s)"
    by (auto simp: issued_big_engine)
  ultimately show ?thesis unfolding h by blast
qed

lemma little_engine_trace: "trace (little_engine l s) = trace s @ issued (little_engine l) s"
  by (simp add: issued_def little_engine_def Let_def)

lemma online_possible_little_engine:
  "online_possible s \<Longrightarrow> online_possible (little_engine l s)"
  by (auto simp: little_engine_def Let_def online_possible_cpu_up online_possible_cpu_down
      online_possible_cores [of "t\<lparr>cycle := 0\<rparr>" t for t])

lemma hmp_handler_not_preempted: "hmp_handler_preempted (\<lambda>s. s) l s = hmp_handler l s"
  by (simp add: hmp_handler_preempted_def hmp_handler_def)

lemma asmp_work_fn_not_preempted: "asmp_work_fn_preempted (\<lambda>s. s) s = asmp_work_fn s"
  by (simp add: asmp_work_fn_preempted_def asmp_work_fn_def hmp_handler_not_preempted)

text \<open>
  What the guards of the source achieve. A tick that runs from its first statement to
  its last with nothing else changing the cores sends no offline request for core 0,
  whatever the kernel answers to its requests, and neither does \<open>asmp_suspend\<close>. The
  candidate of the little sampler is either 0, which stands for "none" and is guarded
  by the decision, or a non-anchor online core of the cluster; the candidate of the big
  sampler is never 0.
\<close>

lemma anchor_safe_when_run_alone:
  assumes op: "online_possible s"
  shows "CpuDown 0 \<notin> set (issued asmp_work_fn s) \<and> CpuDown 0 \<notin> set (issued asmp_suspend s)
     \<and> (slow_cpu (sample_little s) = 0
          \<or> slow_cpu (sample_little s) \<in> set (unplug_candidates s CLUSTER_LITTLE))
     \<and> slow_cpu (sample_big s) \<noteq> 0"
proof -
  define s0 where "s0 = s\<lparr>cycle := cycle s + 1\<rparr>"
  define l where "l = calc_limits s0"
  define s1 where "s1 = little_engine l s0"
  have "online_possible s0" using op by (simp add: s0_def online_possible_def)
  then have "online_possible s1" unfolding s1_def by (rule online_possible_little_engine)
  then obtain rs where rs: "trace (hmp_handler l s1) = trace s1 @ rs" "CpuDown 0 \<notin> set rs"
    using hmp_handler_trace by blast
  have t1: "trace s1 = trace s @ issued (little_engine l) s0"
    unfolding s1_def little_engine_trace by (simp add: s0_def)
  have "asmp_work_fn s = reschedule_asmp_workq (hmp_handler l s1)"
    by (simp add: asmp_work_fn_def Let_def s0_def l_def s1_def)
  then have "issued asmp_work_fn s
      = issued (little_engine l) s0 @ rs @ [QueueDelayedWork DELAY_CHECK]"
    by (simp add: issued_def reschedule_asmp_workq_def rs(1) t1)
  moreover have "CpuDown 0 \<notin> set (issued (little_engine l) s0)"
    by (auto simp: issued_little_engine)
  ultimately have tick: "CpuDown 0 \<notin> set (issued asmp_work_fn s)"
    using rs(2) by simp
  have susp: "CpuDown 0 \<notin> set (issued asmp_suspend s)"
    by (auto simp: issued_asmp_suspend)
  from sample_loop_slow_cpu [of s CLUSTER_LITTLE
      "\<lparr>slow_cpu = 0, slow_rate = UINT_MAX, fast_rate = cpufreq_quick_get s 0\<rparr>"
      "for_each_online_cpu s"]
  have little: "slow_cpu (sample_little s) = 0
      \<or> slow_cpu (sample_little s) \<in> set (unplug_candidates s CLUSTER_LITTLE)"
    unfolding slow_cpu_sample_little unplug_candidates_def by auto
  from sample_loop_slow_cpu [of s CLUSTER_BIG
      "\<lparr>slow_cpu = 4, slow_rate = UINT_MAX,
        fast_rate = cpufreq_quick_get s (get_online_core s CLUSTER_BIG)\<rparr>" "for_each_online_cpu s"]
  have "slow_cpu (sample_big s) \<noteq> 0"
    unfolding slow_cpu_sample_big by auto
  with tick susp little show ?thesis by simp
qed

text \<open>
  C1 does not hold of the code. The trade-down loop passes the answer of
  \<open>get_online_core\<close> to \<open>cpu_down\<close> without the test for 0 that the little
  decision and the suspend loop make, and it counts down a number read before the
  hotplug lock was given up. With four little cores online and no big core, a
  display-off event whose loop runs after the tick has called \<open>cpu_up\<close> leaves no
  little core but core 0 online; \<open>get_online_core\<close> then answers 0 for "none", and
  the tick asks twice for core 0 to go offline.
\<close>

theorem anchor_requested_offline:
  "num_online_cluster_cpus saturated CLUSTER_LITTLE = 4
   \<and> num_online_cluster_cpus saturated CLUSTER_BIG = 0
   \<and> issued asmp_suspend_unplug (cpu_up 4 saturated)
       = [CpuDown 4, CpuDown 3, CpuDown 2, CpuDown 1]
   \<and> issued (asmp_work_fn_preempted asmp_suspend_unplug) saturated
       = [CpuUp 4, CpuDown 4, CpuDown 3, CpuDown 2, CpuDown 1, CpuDown 0, CpuDown 0,
          QueueDelayedWork 20]"
  by code_simp

subsection \<open>The HMP trade\<close>

lemma no_online_in_empty_cluster:
  "num_online_cluster_cpus s cl = 0 \<Longrightarrow> topology_physical_package_id s c = cl
   \<Longrightarrow> \<not> cpu_online s c"
  by (auto simp: num_online_card finite_online)

text \<open>
  C4, as stated, fails in three ways. On a machine without a big cluster the handler
  still runs the trade: it asks for core 0, which is online already, no big core comes
  online, and two little cores go offline all the same. The driver does not look at
  what the kernel answers: when the first offline request is refused, the loop still
  counts it, and three little cores stay online. And when the loop of \<open>asmp_suspend\<close>
  runs in the middle of the handler, no big core and one little core are online in the
  end.
\<close>

theorem trade_without_big_core_counterexample:
  "num_online_cluster_cpus little_only CLUSTER_BIG = 0
   \<and> MAX_CPU_PER_CLUSTERS \<le> num_online_cluster_cpus little_only CLUSTER_LITTLE
   \<and> issued (hmp_handler (calc_limits little_only)) little_only
       = [CpuUp 0, CpuDown 1, CpuDown 2]
   \<and> num_online_cluster_cpus (hmp_handler (calc_limits little_only) little_only) CLUSTER_BIG = 0
   \<and> num_online_cluster_cpus second_refused CLUSTER_BIG = 0
   \<and> MAX_CPU_PER_CLUSTERS \<le> num_online_cluster_cpus second_refused CLUSTER_LITTLE
   \<and> issued (hmp_handler (calc_limits second_refused)) second_refused
       = [CpuUp 4, CpuDown 1, CpuDown 1]
   \<and> num_online_cluster_cpus (hmp_handler (calc_limits second_refused) second_refused)
        CLUSTER_LITTLE = 3
   \<and> num_online_cluster_cpus
        (hmp_handler_preempted asmp_suspend_unplug (calc_limits saturated) saturated)
        CLUSTER_BIG = 0
   \<and> num_online_cluster_cpus
        (hmp_handler_preempted asmp_suspend_unplug (calc_limits saturated) saturated)
        CLUSTER_LITTLE = 1"
  by code_simp

text \<open>
  C4, amended: at the HMP handler, run with nothing else changing the cores, with no
  big core online and a big cluster that has a possible core, four or more little cores
  online make the handler send one online request, for an offline big core, and then as many offline requests as there are
  little cores online above two, none of them for core 0. At most one big core is
  online afterwards, between two and the former number of little cores are online, and
  core 0 stays online. When the kernel accepts every request, exactly one big core and
  exactly two little cores are online. With fewer than four little cores online the
  handler does nothing.
\<close>

theorem hmp_trade_down:
  assumes op: "online_possible s"
    and none: "num_online_cluster_cpus s CLUSTER_BIG = 0"
    and b: "cpu_possible s b" "topology_physical_package_id s b = CLUSTER_BIG"
  shows "(MAX_CPU_PER_CLUSTERS \<le> num_online_cluster_cpus s CLUSTER_LITTLE \<longrightarrow>
            (\<exists>c ds. issued (hmp_handler l) s = CpuUp c # map CpuDown ds
                  \<and> cpu_possible s c \<and> topology_physical_package_id s c = CLUSTER_BIG
                  \<and> \<not> cpu_online s c
                  \<and> 0 \<notin> set ds \<and> length ds = num_online_cluster_cpus s CLUSTER_LITTLE - 2)
            \<and> num_online_cluster_cpus (hmp_handler l s) CLUSTER_BIG \<le> 1
            \<and> 2 \<le> num_online_cluster_cpus (hmp_handler l s) CLUSTER_LITTLE
            \<and> num_online_cluster_cpus (hmp_handler l s) CLUSTER_LITTLE
                \<le> num_online_cluster_cpus s CLUSTER_LITTLE
            \<and> (cpu_online s 0 \<longrightarrow> cpu_online (hmp_handler l s) 0)
            \<and> ((\<forall>n. kernel_accepts s n) \<longrightarrow>
                  num_online_cluster_cpus (hmp_handler l s) CLUSTER_BIG = 1
                  \<and> num_online_cluster_cpus (hmp_handler l s) CLUSTER_LITTLE = 2))
       \<and> (num_online_cluster_cpus s CLUSTER_LITTLE < MAX_CPU_PER_CLUSTERS \<longrightarrow>
            hmp_handler l s = s)"
proof (intro conjI impI)
  assume "num_online_cluster_cpus s CLUSTER_LITTLE < MAX_CPU_PER_CLUSTERS"
  with none show "hmp_handler l s = s" by (simp add: hmp_handler_def Let_def)
next
  assume full: "MAX_CPU_PER_CLUSTERS \<le> num_online_cluster_cpus s CLUSTER_LITTLE"
  let ?n = "num_online_cluster_cpus s CLUSTER_LITTLE"
  let ?r = "get_offline_core s CLUSTER_BIG"
  let ?u = "cpu_up ?r s"
  let ?h = "hmp_handler l s"
  from full have n4: "4 \<le> ?n" by (simp add: MAX_CPU_PER_CLUSTERS_def)
  have "\<not> cpu_online s b" using none b(2) by (rule no_online_in_empty_cluster)
  moreover have "b \<in> set (for_each_possible_cpu s)"
    using b(1) by (simp add: for_each_possible_cpu_def cpu_possible_def)
  ultimately have r: "?r \<in> set (for_each_possible_cpu s)"
      "topology_physical_package_id s ?r = CLUSTER_BIG" "\<not> cpu_online s ?r"
    unfolding get_offline_core_def
    using get_offline_core_loop_found [of "for_each_possible_cpu s" s CLUSTER_BIG] b(2)
    by blast+
  then have rp: "cpu_possible s ?r" by (simp add: for_each_possible_cpu_def)
  have ubig: "num_online_cluster_cpus ?u CLUSTER_BIG \<le> 1"
    using num_online_cpu_up_bounds [of s CLUSTER_BIG ?r] none by simp
  have ubig1: "num_online_cluster_cpus ?u CLUSTER_BIG = 1" if "\<forall>n. kernel_accepts s n"
    using rp r none that by (simp add: num_online_cpu_up)
  have ulittle: "num_online_cluster_cpus ?u CLUSTER_LITTLE = ?n"
    using r(2) by (simp add: num_online_cpu_up_other)
  have uop: "online_possible ?u" using op by (rule online_possible_cpu_up)
  have h: "?h = trade_down ?n ?u"
    using none full by (simp add: hmp_handler_def Let_def)
  from trade_down_props [OF uop, of ?n] ulittle obtain ds where
    td: "num_online_cluster_cpus (trade_down ?n ?u) CLUSTER_LITTLE \<le> ?n"
        "?n - (?n - 2) \<le> num_online_cluster_cpus (trade_down ?n ?u) CLUSTER_LITTLE"
        "(\<forall>n. kernel_accepts s n) \<longrightarrow>
           num_online_cluster_cpus (trade_down ?n ?u) CLUSTER_LITTLE = ?n - (?n - 2)"
        "num_online_cluster_cpus (trade_down ?n ?u) CLUSTER_BIG
           = num_online_cluster_cpus ?u CLUSTER_BIG"
        "cpu_online (trade_down ?n ?u) 0 = cpu_online ?u 0"
        "trace (trade_down ?n ?u) = trace ?u @ map CpuDown ds"
        "0 \<notin> set ds" "length ds = ?n - 2"
    by auto
  have two: "?n - (?n - 2) = 2" using n4 by simp
  show "num_online_cluster_cpus ?h CLUSTER_BIG \<le> 1"
    unfolding h td(4) by (rule ubig)
  show "2 \<le> num_online_cluster_cpus ?h CLUSTER_LITTLE"
    unfolding h using td(2) two by simp
  show "num_online_cluster_cpus ?h CLUSTER_LITTLE \<le> ?n"
    unfolding h by (rule td(1))
  show "cpu_online ?h 0" if "cpu_online s 0"
    unfolding h td(5) using that by (simp add: cpu_online_cpu_up)
  show "num_online_cluster_cpus ?h CLUSTER_BIG = 1" if "\<forall>n. kernel_accepts s n"
    unfolding h td(4) using that by (rule ubig1)
  show "num_online_cluster_cpus ?h CLUSTER_LITTLE = 2" if "\<forall>n. kernel_accepts s n"
    unfolding h using td(3) two that by simp
  have "issued (hmp_handler l) s = CpuUp ?r # map CpuDown ds"
    unfolding issued_def h td(6) by simp
  with rp r(2,3) td(7,8)
  show "\<exists>c ds. issued (hmp_handler l) s = CpuUp c # map CpuDown ds
      \<and> cpu_possible s c \<and> topology_physical_package_id s c = CLUSTER_BIG
      \<and> \<not> cpu_online s c
      \<and> 0 \<notin> set ds \<and> length ds = ?n - 2"
    by blast
qed

theorem hmp_trade_down_witness:
  "online_possible saturated
   \<and> num_online_cluster_cpus saturated CLUSTER_BIG = 0
   \<and> cpu_possible saturated 4
   \<and> topology_physical_package_id saturated 4 = CLUSTER_BIG
   \<and> MAX_CPU_PER_CLUSTERS \<le> num_online_cluster_cpus saturated CLUSTER_LITTLE
   \<and> cpu_online saturated 0
   \<and> (\<forall>n. kernel_accepts saturated n)
   \<and> num_online_cluster_cpus (hmp_handler (calc_limits saturated) saturated) CLUSTER_BIG = 1
   \<and> num_online_cluster_cpus (hmp_handler (calc_limits saturated) saturated) CLUSTER_LITTLE = 2
   \<and> cpu_online (hmp_handler (calc_limits saturated) saturated) 0
   \<and> online_possible second_refused
   \<and> num_online_cluster_cpus second_refused CLUSTER_BIG = 0
   \<and> cpu_possible second_refused 4
   \<and> topology_physical_package_id second_refused 4 = CLUSTER_BIG
   \<and> MAX_CPU_PER_CLUSTERS \<le> num_online_cluster_cpus second_refused CLUSTER_LITTLE
   \<and> 2 \<le> num_online_cluster_cpus (hmp_handler (calc_limits second_refused) second_refused)
            CLUSTER_LITTLE
   \<and> num_online_cluster_cpus (hmp_handler (calc_limits second_refused) second_refused)
        CLUSTER_BIG \<le> 1
   \<and> online_possible only_anchor
   \<and> num_online_cluster_cpus only_anchor CLUSTER_BIG = 0
   \<and> cpu_possible only_anchor 4
   \<and> topology_physical_package_id only_anchor 4 = CLUSTER_BIG
   \<and> num_online_cluster_cpus only_anchor CLUSTER_LITTLE < MAX_CPU_PER_CLUSTERS
   \<and> hmp_handler (calc_limits only_anchor) only_anchor = only_anchor"
proof -
  have h1: "online_possible saturated" by code_simp
  have h2: "num_online_cluster_cpus saturated CLUSTER_BIG = 0" by code_simp
  have h3: "cpu_possible saturated 4" by code_simp
  have h4: "topology_physical_package_id saturated 4 = CLUSTER_BIG" by code_simp
  have h5: "MAX_CPU_PER_CLUSTERS \<le> num_online_cluster_cpus saturated CLUSTER_LITTLE"
    by code_simp
  have h6: "cpu_online saturated 0" by code_simp
  have h7: "\<forall>n. kernel_accepts saturated n" by (simp add: saturated_def machine_def)
  have r1: "online_possible second_refused" by code_simp
  have r2: "num_online_cluster_cpus second_refused CLUSTER_BIG = 0" by code_simp
  have r3: "cpu_possible second_refused 4" by code_simp
  have r4: "topology_physical_package_id second_refused 4 = CLUSTER_BIG" by code_simp
  have r5: "MAX_CPU_PER_CLUSTERS \<le> num_online_cluster_cpus second_refused CLUSTER_LITTLE"
    by code_simp
  have g1: "online_possible only_anchor" by code_simp
  have g2: "num_online_cluster_cpus only_anchor CLUSTER_BIG = 0" by code_simp
  have g3: "cpu_possible only_anchor 4" by code_simp
  have g4: "topology_physical_package_id only_anchor 4 = CLUSTER_BIG" by code_simp
  have g5: "num_online_cluster_cpus only_anchor CLUSTER_LITTLE < MAX_CPU_PER_CLUSTERS"
    by code_simp
  show ?thesis
    using h1 h2 h3 h4 h5 h6 h7 r1 r2 r3 r4 r5 g1 g2 g3 g4 g5
      hmp_trade_down [OF h1 h2 h3 h4, of "calc_limits saturated"]
      hmp_trade_down [OF r1 r2 r3 r4, of "calc_limits second_refused"]
      hmp_trade_down [OF g1 g2 g3 g4, of "calc_limits only_anchor"]
    by blast
qed

subsection \<open>The hysteresis counter\<close>

lemma asmp_param_little_engine [simp]: "asmp_param (little_engine l s) = asmp_param s"
  by (simp add: little_engine_def Let_def)

lemma slow_cpu_sample_little_online:
  "slow_cpu (sample_little s) \<noteq> 0 \<Longrightarrow> cpu_online s (slow_cpu (sample_little s))"
  using sample_loop_slow_cpu [of s CLUSTER_LITTLE
      "\<lparr>slow_cpu = 0, slow_rate = UINT_MAX, fast_rate = cpufreq_quick_get s 0\<rparr>"
      "for_each_online_cpu s"]
  unfolding slow_cpu_sample_little
  by (auto simp: for_each_online_cpu_def)

lemma cycle_little_engine:
  "cycle (little_engine l s) = (if issued (little_engine l) s = [] then cycle s else 0)"
  using slow_cpu_sample_little_online [of s]
  by (auto simp: issued_little_engine little_engine_def Let_def split: if_splits)

lemma cycle_big_engine:
  "(cycle (big_engine l s) = cycle s \<or> cycle (big_engine l s) = 0)
   \<and> (issued (big_engine l) s \<noteq> [] \<longrightarrow> cycle (big_engine l s) = 0)"
  by (auto simp: issued_big_engine big_engine_def Let_def split: if_splits)

lemma cycle_hmp_handler_trade:
  "num_online_cluster_cpus s CLUSTER_BIG = 0 \<Longrightarrow> cycle (hmp_handler l s) = cycle s"
  by (simp add: hmp_handler_def Let_def trade_down_static)

text \<open>
  C3, as stated, fails for the trade-down: it sends its three requests in one tick
  whatever the counter is and leaves the counter alone.
\<close>

theorem trade_down_keeps_counter_counterexample:
  "trace (asmp_work_fn saturated) = [CpuUp 4, CpuDown 1, CpuDown 2, QueueDelayedWork 20]
   \<and> cycle saturated = 5
   \<and> cycle (asmp_work_fn saturated) = 6
   \<and> cycle_up (asmp_param saturated) = 1
   \<and> cycle_down (asmp_param saturated) = 1"
  by code_simp

text \<open>
  C3, amended: a tick increments the counter once, before anything else. A request of the
  little cluster's decision resets it to 0 and is sent only when the incremented counter
  has reached the up-cycle count (to bring a core online) or the down-cycle count (to
  take one offline). With a big core online, a request of the big cluster's decision
  resets it to 0 and is sent only when the counter has reached the up-cycle count or
  the 32-bit product of the down-cycle count and 3. The trade-down neither reads nor
  writes the counter.
\<close>

theorem hysteresis_counter_per_tick:
  "let s0 = s\<lparr>cycle := cycle s + 1\<rparr>; l = calc_limits s0;
       s1 = little_engine l s0; s2 = hmp_handler l s1
   in asmp_work_fn s = reschedule_asmp_workq s2
      \<and> cycle (asmp_work_fn s) = cycle s2
      \<and> cycle s1 = (if issued (little_engine l) s0 = [] then cycle s + 1 else 0)
      \<and> (\<forall>cpu. CpuUp cpu \<in> set (issued (little_engine l) s0)
            \<longrightarrow> cycle_up (asmp_param s) \<le> cycle s + 1)
      \<and> (\<forall>cpu. CpuDown cpu \<in> set (issued (little_engine l) s0)
            \<longrightarrow> cycle_down (asmp_param s) \<le> cycle s + 1)
      \<and> (num_online_cluster_cpus s1 CLUSTER_BIG = 0 \<longrightarrow> cycle s2 = cycle s1)
      \<and> (num_online_cluster_cpus s1 CLUSTER_BIG \<noteq> 0 \<longrightarrow>
            (cycle s2 = cycle s1 \<or> cycle s2 = 0)
            \<and> (issued (hmp_handler l) s1 \<noteq> [] \<longrightarrow> cycle s2 = 0)
            \<and> (\<forall>cpu. CpuUp cpu \<in> set (issued (hmp_handler l) s1)
                  \<longrightarrow> cycle_up (asmp_param s) \<le> cycle s1)
            \<and> (\<forall>cpu. CpuDown cpu \<in> set (issued (hmp_handler l) s1)
                  \<longrightarrow> cycle_down (asmp_param s) * 3 \<le> cycle s1))"
proof -
  define s0 where "s0 = s\<lparr>cycle := cycle s + 1\<rparr>"
  define l where "l = calc_limits s0"
  define s1 where "s1 = little_engine l s0"
  define s2 where "s2 = hmp_handler l s1"
  have p0: "asmp_param s0 = asmp_param s" "cycle s0 = cycle s + 1" by (simp_all add: s0_def)
  have p1: "asmp_param s1 = asmp_param s" by (simp add: s1_def p0)
  have a: "asmp_work_fn s = reschedule_asmp_workq s2"
    by (simp add: asmp_work_fn_def Let_def s0_def l_def s1_def s2_def)
  have b: "cycle (asmp_work_fn s) = cycle s2"
    unfolding a by (simp add: reschedule_asmp_workq_def)
  have c: "cycle s1 = (if issued (little_engine l) s0 = [] then cycle s + 1 else 0)"
    unfolding s1_def cycle_little_engine by (simp add: p0)
  have d: "CpuUp cpu \<in> set (issued (little_engine l) s0)
            \<longrightarrow> cycle_up (asmp_param s) \<le> cycle s + 1" for cpu
    by (auto simp: issued_little_engine p0 split: if_splits)
  have e: "CpuDown cpu \<in> set (issued (little_engine l) s0)
            \<longrightarrow> cycle_down (asmp_param s) \<le> cycle s + 1" for cpu
    by (auto simp: issued_little_engine p0 split: if_splits)
  have f: "num_online_cluster_cpus s1 CLUSTER_BIG = 0 \<longrightarrow> cycle s2 = cycle s1"
    unfolding s2_def by (simp add: cycle_hmp_handler_trade)
  have g: "(cycle s2 = cycle s1 \<or> cycle s2 = 0)
            \<and> (issued (hmp_handler l) s1 \<noteq> [] \<longrightarrow> cycle s2 = 0)
            \<and> (\<forall>cpu. CpuUp cpu \<in> set (issued (hmp_handler l) s1)
                  \<longrightarrow> cycle_up (asmp_param s) \<le> cycle s1)
            \<and> (\<forall>cpu. CpuDown cpu \<in> set (issued (hmp_handler l) s1)
                  \<longrightarrow> cycle_down (asmp_param s) * 3 \<le> cycle s1)"
    if nz: "num_online_cluster_cpus s1 CLUSTER_BIG \<noteq> 0"
  proof -
    from nz have h: "hmp_handler l s1 = big_engine l s1"
      by (simp add: hmp_handler_def Let_def)
    then have i: "issued (hmp_handler l) s1 = issued (big_engine l) s1"
      by (simp add: issued_def)
    have "\<forall>cpu. CpuUp cpu \<in> set (issued (big_engine l) s1)
                  \<longrightarrow> cycle_up (asmp_param s) \<le> cycle s1"
      by (auto simp: issued_big_engine p1 split: if_splits)
    moreover have "\<forall>cpu. CpuDown cpu \<in> set (issued (big_engine l) s1)
                  \<longrightarrow> cycle_down (asmp_param s) * 3 \<le> cycle s1"
      by (auto simp: issued_big_engine p1 split: if_splits)
    ultimately show ?thesis
      unfolding i s2_def h using cycle_big_engine [of l s1] by blast
  qed
  from a b c d e f g show ?thesis
    unfolding Let_def s0_def [symmetric] l_def [symmetric] s1_def [symmetric]
      s2_def [symmetric]
    by blast
qed

theorem hysteresis_counter_per_tick_witness:
  "CpuDown 1 \<in> set (issued (little_engine (calc_limits (fast_missed\<lparr>cycle := cycle fast_missed + 1\<rparr>)))
                     (fast_missed\<lparr>cycle := cycle fast_missed + 1\<rparr>))
   \<and> cycle_down (asmp_param fast_missed) \<le> cycle fast_missed + 1
   \<and> num_online_cluster_cpus
        (little_engine (calc_limits (fast_missed\<lparr>cycle := cycle fast_missed + 1\<rparr>))
           (fast_missed\<lparr>cycle := cycle fast_missed + 1\<rparr>)) CLUSTER_BIG = 0
   \<and> cycle (asmp_work_fn fast_missed) = 0"
proof -
  have h1: "CpuDown 1 \<in> set (issued (little_engine (calc_limits (fast_missed\<lparr>cycle := cycle fast_missed + 1\<rparr>)))
                     (fast_missed\<lparr>cycle := cycle fast_missed + 1\<rparr>))"
    by code_simp
  have h2: "num_online_cluster_cpus
        (little_engine (calc_limits (fast_missed\<lparr>cycle := cycle fast_missed + 1\<rparr>))
           (fast_missed\<lparr>cycle := cycle fast_missed + 1\<rparr>)) CLUSTER_BIG = 0"
    by code_simp
  from h1 have h3: "issued (little_engine (calc_limits (fast_missed\<lparr>cycle := cycle fast_missed + 1\<rparr>)))
                     (fast_missed\<lparr>cycle := cycle fast_missed + 1\<rparr>) \<noteq> []"
    by auto
  show ?thesis
    using h1 h2 h3 hysteresis_counter_per_tick [of fast_missed, unfolded Let_def]
    by metis
qed

subsection \<open>Online counts per cluster\<close>

lemma ftb_core:
  "four_little_then_big s \<Longrightarrow> cpu < nr_cpu_ids s
   \<Longrightarrow> cpu_possible s cpu
       \<and> topology_physical_package_id s cpu = (if cpu < 4 then CLUSTER_LITTLE else CLUSTER_BIG)"
  by (simp add: four_little_then_big_def list_all_iff)

lemma ftb_online_possible: "four_little_then_big s \<Longrightarrow> online_possible s"
  unfolding online_possible_iff using ftb_core [of s] by (auto simp: cpu_online_def)

lemma ftb_transfer:
  assumes "four_little_then_big s" "nr_cpu_ids t = nr_cpu_ids s"
    "cpu_possible t = cpu_possible s"
    "topology_physical_package_id t = topology_physical_package_id s" "cpu_online t 0"
  shows "four_little_then_big t"
  using assms by (simp add: four_little_then_big_def)

lemma ftb_cpu_up: "four_little_then_big s \<Longrightarrow> four_little_then_big (cpu_up x s)"
  by (rule ftb_transfer) (auto simp: fun_eq_iff cpu_online_cpu_up four_little_then_big_def)

lemma ftb_cpu_down: "four_little_then_big s \<Longrightarrow> four_little_then_big (cpu_down x s)"
  by (rule ftb_transfer) (auto simp: fun_eq_iff cpu_online_cpu_down four_little_then_big_def)

lemma ftb_cores: "cores t = cores s \<Longrightarrow> four_little_then_big t = four_little_then_big s"
  by (simp add: four_little_then_big_def cpu_online_cores [of t s] cpu_possible_def
      nr_cpu_ids_def topology_physical_package_id_def)

lemma ftb_little_le:
  assumes "four_little_then_big s"
  shows "num_online_cluster_cpus s CLUSTER_LITTLE \<le> 4"
proof -
  have "{cpu. cpu_online s cpu \<and> topology_physical_package_id s cpu = CLUSTER_LITTLE}
      \<subseteq> {0..<4}"
    using ftb_core [OF assms] by (auto simp: cpu_online_def split: if_splits)
  then have "card {cpu. cpu_online s cpu \<and> topology_physical_package_id s cpu = CLUSTER_LITTLE}
      \<le> card {0..<4::nat}"
    by (intro card_mono) simp_all
  then show ?thesis by (simp add: num_online_card)
qed

text \<open>With core 0 online and a little core missing, the first offline core after 0 is little.\<close>

lemma filter_upt_head_le:
  assumes "filter P [a..<b] = x # xs" "a \<le> y" "y < b" "P y"
  shows "x \<le> y"
proof -
  have "sorted (filter P [a..<b])" by (simp add: sorted_wrt_filter)
  moreover have "y \<in> set (filter P [a..<b])" using assms(2,3,4) by simp
  ultimately show ?thesis unfolding assms(1) by auto
qed

lemma next_zero_0_little:
  assumes ftb: "four_little_then_big s"
    and lt: "num_online_cluster_cpus s CLUSTER_LITTLE < 4"
    and inr: "cpumask_next_zero 0 s < nr_cpu_ids s"
  shows "cpumask_next_zero 0 s < 4"
proof (rule ccontr)
  assume "\<not> cpumask_next_zero 0 s < 4"
  with inr have n4: "4 < nr_cpu_ids s" by simp
  have "\<exists>y<4. \<not> cpu_online s y"
  proof (rule ccontr)
    assume "\<not> (\<exists>y<4. \<not> cpu_online s y)"
    then have all: "\<forall>y<4. cpu_online s y" by simp
    have "{0..<4} \<subseteq> {cpu. cpu_online s cpu \<and> topology_physical_package_id s cpu = CLUSTER_LITTLE}"
      using all ftb_core [OF ftb] n4 by auto
    then have "card {0..<4::nat}
        \<le> card {cpu. cpu_online s cpu \<and> topology_physical_package_id s cpu = CLUSTER_LITTLE}"
      by (intro card_mono finite_online)
    with lt show False by (simp add: num_online_card)
  qed
  then obtain y where y: "y < 4" "\<not> cpu_online s y" by blast
  from ftb have "cpu_online s 0" by (simp add: four_little_then_big_def)
  with y(2) have y0: "y \<noteq> 0" by (cases "y = 0") simp_all
  show False
  proof (cases "filter (\<lambda>cpu. \<not> cpu_online s cpu) [Suc 0..<nr_cpu_ids s]")
    case Nil
    with inr show ?thesis by (simp add: cpumask_next_zero_def)
  next
    case (Cons x xs)
    then have "x \<le> y"
      using y y0 n4 by (intro filter_upt_head_le [OF Cons]) simp_all
    moreover from Cons have "cpumask_next_zero 0 s = x" by (simp add: cpumask_next_zero_def)
    ultimately show ?thesis using y(1) \<open>\<not> cpumask_next_zero 0 s < 4\<close> by simp
  qed
qed

lemma next_zero_3_big:
  assumes "cpumask_next_zero 3 s < nr_cpu_ids s"
  shows "4 \<le> cpumask_next_zero 3 s"
proof (cases "filter (\<lambda>cpu. \<not> cpu_online s cpu) [Suc 3..<nr_cpu_ids s]")
  case Nil
  with assms show ?thesis by (simp add: cpumask_next_zero_def)
next
  case (Cons x xs)
  then have "x \<in> set (filter (\<lambda>cpu. \<not> cpu_online s cpu) [Suc 3..<nr_cpu_ids s])" by simp
  then have "4 \<le> x" by simp
  with Cons show ?thesis by (simp add: cpumask_next_zero_def)
qed

text \<open>The three things a decision can do to the cores.\<close>

lemma little_engine_cores:
  "cores (little_engine l s) = cores s
   \<or> (num_online_cluster_cpus s CLUSTER_LITTLE < MAX_CPU_PER_CLUSTERS
       \<and> cores (little_engine l s) = cores (cpu_up (cpumask_next_zero 0 s) s))
   \<or> (slow_cpu (sample_little s) \<noteq> 0
       \<and> unat (min_cpus (asmp_param s)) < num_online_cluster_cpus s CLUSTER_LITTLE
       \<and> cpu_online s (slow_cpu (sample_little s))
       \<and> cores (little_engine l s) = cores (cpu_down (slow_cpu (sample_little s)) s))"
  by (auto simp: little_engine_def Let_def)

lemma big_engine_cores:
  "cores (big_engine l s) = cores s
   \<or> (num_online_cluster_cpus s CLUSTER_BIG < MAX_CPU_PER_CLUSTERS
       \<and> cores (big_engine l s) = cores (cpu_up (cpumask_next_zero 3 s) s))
   \<or> (slow_cpu (sample_big s) \<noteq> 0
       \<and> unat (min_cpus_hmp (asmp_param s)) < num_online_cluster_cpus s CLUSTER_BIG
       \<and> cpu_online s (slow_cpu (sample_big s))
       \<and> cores (big_engine l s) = cores (cpu_down (slow_cpu (sample_big s)) s))"
  by (auto simp: big_engine_def Let_def)

lemma asmp_param_big_engine [simp]: "asmp_param (big_engine l s) = asmp_param s"
  by (simp add: big_engine_def Let_def)

lemma slow_cpu_sample_little_cluster:
  "slow_cpu (sample_little s) \<noteq> 0
   \<Longrightarrow> topology_physical_package_id s (slow_cpu (sample_little s)) = CLUSTER_LITTLE"
  using sample_loop_slow_cpu [of s CLUSTER_LITTLE
      "\<lparr>slow_cpu = 0, slow_rate = UINT_MAX, fast_rate = cpufreq_quick_get s 0\<rparr>"
      "for_each_online_cpu s"]
  unfolding slow_cpu_sample_little by auto

lemma slow_cpu_sample_big_cluster:
  assumes "four_little_then_big s" "cpu_online s (slow_cpu (sample_big s))"
  shows "topology_physical_package_id s (slow_cpu (sample_big s)) = CLUSTER_BIG"
proof -
  from sample_loop_slow_cpu [of s CLUSTER_BIG
      "\<lparr>slow_cpu = 4, slow_rate = UINT_MAX,
        fast_rate = cpufreq_quick_get s (get_online_core s CLUSTER_BIG)\<rparr>" "for_each_online_cpu s"]
  have "slow_cpu (sample_big s) = 4
      \<or> topology_physical_package_id s (slow_cpu (sample_big s)) = CLUSTER_BIG"
    unfolding slow_cpu_sample_big by auto
  moreover have "topology_physical_package_id s 4 = CLUSTER_BIG" if "cpu_online s 4"
    using ftb_core [OF assms(1), of 4] that by (simp add: cpu_online_def)
  ultimately show ?thesis using assms(2) by auto
qed

lemma kernel_accepts_little_engine [simp]:
  "kernel_accepts (little_engine l s) = kernel_accepts s"
  by (simp add: little_engine_def Let_def)

lemma little_engine_keeps_range:
  assumes ftb: "four_little_then_big s"
    and lo: "unat (min_cpus (asmp_param s)) \<le> num_online_cluster_cpus s CLUSTER_LITTLE"
    and hlo: "unat (min_cpus_hmp (asmp_param s)) \<le> num_online_cluster_cpus s CLUSTER_BIG"
    and hhi: "num_online_cluster_cpus s CLUSTER_BIG \<le> 4"
  shows "four_little_then_big (little_engine l s)
    \<and> unat (min_cpus (asmp_param s)) \<le> num_online_cluster_cpus (little_engine l s) CLUSTER_LITTLE
    \<and> unat (min_cpus_hmp (asmp_param s)) \<le> num_online_cluster_cpus (little_engine l s) CLUSTER_BIG
    \<and> num_online_cluster_cpus (little_engine l s) CLUSTER_BIG \<le> 4"
proof -
  let ?t = "little_engine l s"
  let ?c = "cpumask_next_zero 0 s"
  let ?d = "slow_cpu (sample_little s)"
  from little_engine_cores [of l s]
  consider (idle) "cores ?t = cores s"
    | (up) "num_online_cluster_cpus s CLUSTER_LITTLE < MAX_CPU_PER_CLUSTERS"
        "cores ?t = cores (cpu_up ?c s)"
    | (down) "?d \<noteq> 0"
        "unat (min_cpus (asmp_param s)) < num_online_cluster_cpus s CLUSTER_LITTLE"
        "cpu_online s ?d" "cores ?t = cores (cpu_down ?d s)"
    by blast
  then show ?thesis
  proof cases
    case idle
    with assms show ?thesis
      by (simp add: ftb_cores [OF idle] num_online_cores [OF idle])
  next
    case up
    have big: "num_online_cluster_cpus (cpu_up ?c s) CLUSTER_BIG
        = num_online_cluster_cpus s CLUSTER_BIG"
    proof (cases "?c < nr_cpu_ids s")
      case True
      with ftb up(1) have "?c < 4"
        by (intro next_zero_0_little) (simp_all add: MAX_CPU_PER_CLUSTERS_def)
      with ftb_core [OF ftb True] have "topology_physical_package_id s ?c \<noteq> CLUSTER_BIG"
        by simp
      then show ?thesis by (rule num_online_cpu_up_other)
    next
      case False
      then have "\<not> cpu_possible s ?c" by (simp add: cpu_possible_def)
      then show ?thesis by (simp add: num_online_cpu_up_idle)
    qed
    have little: "num_online_cluster_cpus s CLUSTER_LITTLE
        \<le> num_online_cluster_cpus (cpu_up ?c s) CLUSTER_LITTLE"
      using num_online_cpu_up_bounds [of s CLUSTER_LITTLE ?c] by simp
    from ftb have "four_little_then_big (cpu_up ?c s)" by (rule ftb_cpu_up)
    with big little lo hlo hhi show ?thesis
      by (simp add: ftb_cores [OF up(2)] num_online_cores [OF up(2)])
  next
    case down
    have cl: "topology_physical_package_id s ?d = CLUSTER_LITTLE"
      using down(1) by (rule slow_cpu_sample_little_cluster)
    have "num_online_cluster_cpus s CLUSTER_LITTLE - 1
        \<le> num_online_cluster_cpus (cpu_down ?d s) CLUSTER_LITTLE"
      using num_online_cpu_down_bounds [of ?d s CLUSTER_LITTLE] by simp
    with down(2) have little: "unat (min_cpus (asmp_param s))
        \<le> num_online_cluster_cpus (cpu_down ?d s) CLUSTER_LITTLE"
      by arith
    have big: "num_online_cluster_cpus (cpu_down ?d s) CLUSTER_BIG
        = num_online_cluster_cpus s CLUSTER_BIG"
      using cl by (simp add: num_online_cpu_down_other)
    from ftb have f: "four_little_then_big (cpu_down ?d s)" by (rule ftb_cpu_down)
    with big little f hlo hhi show ?thesis
      by (simp add: ftb_cores [OF down(4)] num_online_cores [OF down(4)])
  qed
qed

lemma big_engine_keeps_range:
  assumes ftb: "four_little_then_big s"
    and hlo: "unat (min_cpus_hmp (asmp_param s)) \<le> num_online_cluster_cpus s CLUSTER_BIG"
    and hhi: "num_online_cluster_cpus s CLUSTER_BIG \<le> 4"
  shows "four_little_then_big (big_engine l s)
    \<and> num_online_cluster_cpus (big_engine l s) CLUSTER_LITTLE
        = num_online_cluster_cpus s CLUSTER_LITTLE
    \<and> unat (min_cpus_hmp (asmp_param s)) \<le> num_online_cluster_cpus (big_engine l s) CLUSTER_BIG
    \<and> num_online_cluster_cpus (big_engine l s) CLUSTER_BIG \<le> 4"
proof -
  let ?t = "big_engine l s"
  let ?c = "cpumask_next_zero 3 s"
  let ?d = "slow_cpu (sample_big s)"
  from big_engine_cores [of l s]
  consider (idle) "cores ?t = cores s"
    | (up) "num_online_cluster_cpus s CLUSTER_BIG < MAX_CPU_PER_CLUSTERS"
        "cores ?t = cores (cpu_up ?c s)"
    | (down) "?d \<noteq> 0"
        "unat (min_cpus_hmp (asmp_param s)) < num_online_cluster_cpus s CLUSTER_BIG"
        "cpu_online s ?d" "cores ?t = cores (cpu_down ?d s)"
    by blast
  then show ?thesis
  proof cases
    case idle
    with assms show ?thesis
      by (simp add: ftb_cores [OF idle] num_online_cores [OF idle])
  next
    case up
    have little: "num_online_cluster_cpus (cpu_up ?c s) CLUSTER_LITTLE
          = num_online_cluster_cpus s CLUSTER_LITTLE"
    proof (cases "?c < nr_cpu_ids s")
      case True
      then have "4 \<le> ?c" by (rule next_zero_3_big)
      with ftb_core [OF ftb True] have "topology_physical_package_id s ?c \<noteq> CLUSTER_LITTLE"
        by simp
      then show ?thesis by (rule num_online_cpu_up_other)
    next
      case False
      then have "\<not> cpu_possible s ?c" by (simp add: cpu_possible_def)
      then show ?thesis by (simp add: num_online_cpu_up_idle)
    qed
    have big: "num_online_cluster_cpus s CLUSTER_BIG
          \<le> num_online_cluster_cpus (cpu_up ?c s) CLUSTER_BIG"
        "num_online_cluster_cpus (cpu_up ?c s) CLUSTER_BIG
          \<le> num_online_cluster_cpus s CLUSTER_BIG + 1"
      using num_online_cpu_up_bounds [of s CLUSTER_BIG ?c] by simp_all
    from ftb have "four_little_then_big (cpu_up ?c s)" by (rule ftb_cpu_up)
    with little big up(1) hlo hhi show ?thesis
      by (simp add: ftb_cores [OF up(2)] num_online_cores [OF up(2)] MAX_CPU_PER_CLUSTERS_def)
  next
    case down
    have cl: "topology_physical_package_id s ?d = CLUSTER_BIG"
      using ftb down(3) by (rule slow_cpu_sample_big_cluster)
    have b: "num_online_cluster_cpus (cpu_down ?d s) CLUSTER_BIG
          \<le> num_online_cluster_cpus s CLUSTER_BIG"
        "num_online_cluster_cpus s CLUSTER_BIG - 1
          \<le> num_online_cluster_cpus (cpu_down ?d s) CLUSTER_BIG"
      using num_online_cpu_down_bounds [of ?d s CLUSTER_BIG] by simp_all
    with down(2) hhi
    have big: "unat (min_cpus_hmp (asmp_param s))
          \<le> num_online_cluster_cpus (cpu_down ?d s) CLUSTER_BIG"
        "num_online_cluster_cpus (cpu_down ?d s) CLUSTER_BIG \<le> 4"
      by arith+
    have little: "num_online_cluster_cpus (cpu_down ?d s) CLUSTER_LITTLE
        = num_online_cluster_cpus s CLUSTER_LITTLE"
      using cl by (simp add: num_online_cpu_down_other)
    from ftb have f: "four_little_then_big (cpu_down ?d s)" by (rule ftb_cpu_down)
    with big little f show ?thesis
      by (simp add: ftb_cores [OF down(4)] num_online_cores [OF down(4)])
  qed
qed

lemma asmp_param_hmp_handler [simp]: "asmp_param (hmp_handler l s) = asmp_param s"
  by (simp add: hmp_handler_def Let_def trade_down_static)

text \<open>
  The HMP handler: when the trade-down runs, two little cores are left, or more when
  the kernel refuses a request; otherwise the little count is untouched.
\<close>

lemma hmp_handler_keeps_range:
  assumes ftb: "four_little_then_big s"
    and lo: "unat (min_cpus (asmp_param s)) \<le> num_online_cluster_cpus s CLUSTER_LITTLE"
    and hlo: "unat (min_cpus_hmp (asmp_param s)) \<le> num_online_cluster_cpus s CLUSTER_BIG"
    and hhi: "num_online_cluster_cpus s CLUSTER_BIG \<le> 4"
  shows "four_little_then_big (hmp_handler l s)
    \<and> unat (min_cpus_hmp (asmp_param s)) \<le> num_online_cluster_cpus (hmp_handler l s) CLUSTER_BIG
    \<and> num_online_cluster_cpus (hmp_handler l s) CLUSTER_BIG \<le> 4
    \<and> (if num_online_cluster_cpus s CLUSTER_BIG = 0
            \<and> MAX_CPU_PER_CLUSTERS \<le> num_online_cluster_cpus s CLUSTER_LITTLE
        then 2 \<le> num_online_cluster_cpus (hmp_handler l s) CLUSTER_LITTLE
             \<and> ((\<forall>n. kernel_accepts s n)
                  \<longrightarrow> num_online_cluster_cpus (hmp_handler l s) CLUSTER_LITTLE = 2)
        else unat (min_cpus (asmp_param s))
               \<le> num_online_cluster_cpus (hmp_handler l s) CLUSTER_LITTLE)"
proof (cases "num_online_cluster_cpus s CLUSTER_BIG = 0")
  case False
  then have h: "hmp_handler l s = big_engine l s" by (simp add: hmp_handler_def Let_def)
  from big_engine_keeps_range [OF ftb hlo hhi, of l] lo False show ?thesis
    unfolding h by simp
next
  case none: True
  show ?thesis
  proof (cases "MAX_CPU_PER_CLUSTERS \<le> num_online_cluster_cpus s CLUSTER_LITTLE")
    case False
    with none have "hmp_handler l s = s" by (simp add: hmp_handler_def Let_def)
    with assms False show ?thesis by simp
  next
    case full: True
    let ?n = "num_online_cluster_cpus s CLUSTER_LITTLE"
    let ?r = "get_offline_core s CLUSTER_BIG"
    let ?u = "cpu_up ?r s"
    let ?h = "trade_down ?n ?u"
    have h: "hmp_handler l s = ?h"
      using none full by (simp add: hmp_handler_def Let_def)
    have fu: "four_little_then_big ?u" using ftb by (rule ftb_cpu_up)
    then have opu: "online_possible ?u" by (rule ftb_online_possible)
    have nle: "?n \<le> num_online_cluster_cpus ?u CLUSTER_LITTLE"
      using num_online_cpu_up_bounds [of s CLUSTER_LITTLE ?r] by simp
    have "num_online_cluster_cpus ?u CLUSTER_LITTLE \<le> 4" using fu by (rule ftb_little_le)
    with nle full have n4: "?n = 4" "num_online_cluster_cpus ?u CLUSTER_LITTLE = 4"
      by (simp_all add: MAX_CPU_PER_CLUSTERS_def)
    have ubig: "num_online_cluster_cpus ?u CLUSTER_BIG \<le> 1"
      using num_online_cpu_up_bounds [of s CLUSTER_BIG ?r] none by simp
    from trade_down_props [OF opu nle]
    have td: "2 \<le> num_online_cluster_cpus ?h CLUSTER_LITTLE"
        "(\<forall>n. kernel_accepts s n) \<longrightarrow> num_online_cluster_cpus ?h CLUSTER_LITTLE = 2"
        "num_online_cluster_cpus ?h CLUSTER_BIG = num_online_cluster_cpus ?u CLUSTER_BIG"
        "cpu_online ?h 0 = cpu_online ?u 0"
      by (simp_all add: n4)
    from fu have "cpu_online ?u 0" by (simp add: four_little_then_big_def)
    with td(4) have "cpu_online ?h 0" by simp
    from fu trade_down_static [of ?n ?u] this
    have "four_little_then_big ?h"
      by (simp add: four_little_then_big_def)
    moreover from hlo none have "unat (min_cpus_hmp (asmp_param s)) = 0" by simp
    ultimately show ?thesis
      unfolding h using td(1,2,3) ubig none full by simp
  qed
qed

text \<open>
  C2, as stated, fails. The trade-down takes the little cluster down to two online
  cores whatever \<open>min_cpus\<close> is, and \<open>max_cpus\<close> is never read by the tick: a
  count above it is left as it is.
\<close>

theorem counts_leave_range_counterexample:
  "unat (min_cpus (asmp_param below_min)) = 3
   \<and> unat (max_cpus (asmp_param below_min)) = 8
   \<and> num_online_cluster_cpus below_min CLUSTER_LITTLE = 4
   \<and> num_online_cluster_cpus (asmp_work_fn below_min) CLUSTER_LITTLE = 2
   \<and> asmp_param (asmp_work_fn below_min) = asmp_param below_min
   \<and> unat (max_cpus (asmp_param above_max)) = 1
   \<and> num_online_cluster_cpus (asmp_work_fn above_max) CLUSTER_LITTLE = 2
   \<and> asmp_param (asmp_work_fn above_max) = asmp_param above_max"
proof -
  have p: "unat (min_cpus (asmp_param below_min)) = 3"
      "unat (max_cpus (asmp_param below_min)) = 8"
      "unat (max_cpus (asmp_param above_max)) = 1"
    by (simp_all add: below_min_def above_max_def machine_def default_param_def)
  have n: "num_online_cluster_cpus below_min CLUSTER_LITTLE = 4"
      "num_online_cluster_cpus (asmp_work_fn below_min) CLUSTER_LITTLE = 2"
      "num_online_cluster_cpus (asmp_work_fn above_max) CLUSTER_LITTLE = 2"
    by code_simp+
  have q: "asmp_param (asmp_work_fn below_min) = asmp_param below_min"
      "asmp_param (asmp_work_fn above_max) = asmp_param above_max"
    by code_simp+
  from p n q show ?thesis by simp
qed

text \<open>
  C2, amended: on the machine the source's constants assume, let the little count be at
  least \<open>min_cpus\<close> and the big count lie between \<open>min_cpus_hmp\<close> and 4 before a
  tick, and let nothing else change the cores while the tick runs. After the tick the machine and the parameters are as before and the big count
  again lies between \<open>min_cpus_hmp\<close> and 4. If the HMP handler of the tick finds no
  big core online and four little cores online, the trade-down runs: at least two
  little cores are online after the tick, exactly two when the kernel accepts every
  request, whatever \<open>min_cpus\<close> is. In every other tick the little count is at least
  \<open>min_cpus\<close> afterwards. The upper bound is the constant
  \<open>MAX_CPU_PER_CLUSTERS\<close>, not \<open>max_cpus\<close>; the little cluster of this machine has
  four cores, so its count cannot exceed 4 (lemma \<open>ftb_little_le\<close>).
\<close>

theorem counts_stay_in_range:
  assumes "four_little_then_big s"
    and "unat (min_cpus (asmp_param s)) \<le> num_online_cluster_cpus s CLUSTER_LITTLE"
    and "unat (min_cpus_hmp (asmp_param s)) \<le> num_online_cluster_cpus s CLUSTER_BIG"
    and "num_online_cluster_cpus s CLUSTER_BIG \<le> MAX_CPU_PER_CLUSTERS"
  shows "let s0 = s\<lparr>cycle := cycle s + 1\<rparr>; l = calc_limits s0; s1 = little_engine l s0
    in four_little_then_big (asmp_work_fn s)
       \<and> asmp_param (asmp_work_fn s) = asmp_param s
       \<and> unat (min_cpus_hmp (asmp_param s))
            \<le> num_online_cluster_cpus (asmp_work_fn s) CLUSTER_BIG
       \<and> num_online_cluster_cpus (asmp_work_fn s) CLUSTER_BIG \<le> MAX_CPU_PER_CLUSTERS
       \<and> (if num_online_cluster_cpus s1 CLUSTER_BIG = 0
               \<and> MAX_CPU_PER_CLUSTERS \<le> num_online_cluster_cpus s1 CLUSTER_LITTLE
           then 2 \<le> num_online_cluster_cpus (asmp_work_fn s) CLUSTER_LITTLE
                \<and> ((\<forall>n. kernel_accepts s n)
                     \<longrightarrow> num_online_cluster_cpus (asmp_work_fn s) CLUSTER_LITTLE = 2)
           else unat (min_cpus (asmp_param s))
                  \<le> num_online_cluster_cpus (asmp_work_fn s) CLUSTER_LITTLE)"
proof -
  define s0 where "s0 = s\<lparr>cycle := cycle s + 1\<rparr>"
  define l where "l = calc_limits s0"
  define s1 where "s1 = little_engine l s0"
  define s2 where "s2 = hmp_handler l s1"
  have c0: "cores s0 = cores s" and p0: "asmp_param s0 = asmp_param s"
    and k0: "kernel_accepts s0 = kernel_accepts s"
    by (simp_all add: s0_def)
  have pre0: "four_little_then_big s0"
      "unat (min_cpus (asmp_param s0)) \<le> num_online_cluster_cpus s0 CLUSTER_LITTLE"
      "unat (min_cpus_hmp (asmp_param s0)) \<le> num_online_cluster_cpus s0 CLUSTER_BIG"
      "num_online_cluster_cpus s0 CLUSTER_BIG \<le> 4"
    using assms by (simp_all add: ftb_cores [OF c0] num_online_cores [OF c0] p0
        MAX_CPU_PER_CLUSTERS_def)
  have p1: "asmp_param s1 = asmp_param s" by (simp add: s1_def p0)
  have k1: "kernel_accepts s1 = kernel_accepts s" by (simp add: s1_def k0)
  from little_engine_keeps_range [OF pre0, of l]
  have pre1: "four_little_then_big s1"
      "unat (min_cpus (asmp_param s1)) \<le> num_online_cluster_cpus s1 CLUSTER_LITTLE"
      "unat (min_cpus_hmp (asmp_param s1)) \<le> num_online_cluster_cpus s1 CLUSTER_BIG"
      "num_online_cluster_cpus s1 CLUSTER_BIG \<le> 4"
    by (simp_all add: s1_def [symmetric] p0 p1)
  from hmp_handler_keeps_range [OF pre1, of l]
  have post: "four_little_then_big s2
      \<and> unat (min_cpus_hmp (asmp_param s)) \<le> num_online_cluster_cpus s2 CLUSTER_BIG
      \<and> num_online_cluster_cpus s2 CLUSTER_BIG \<le> 4
      \<and> (if num_online_cluster_cpus s1 CLUSTER_BIG = 0
              \<and> MAX_CPU_PER_CLUSTERS \<le> num_online_cluster_cpus s1 CLUSTER_LITTLE
          then 2 \<le> num_online_cluster_cpus s2 CLUSTER_LITTLE
               \<and> ((\<forall>n. kernel_accepts s n)
                    \<longrightarrow> num_online_cluster_cpus s2 CLUSTER_LITTLE = 2)
          else unat (min_cpus (asmp_param s)) \<le> num_online_cluster_cpus s2 CLUSTER_LITTLE)"
    unfolding s2_def p1 k1 .
  have p2: "asmp_param s2 = asmp_param s" by (simp add: s2_def p1)
  have a: "asmp_work_fn s = reschedule_asmp_workq s2"
    by (simp add: asmp_work_fn_def Let_def s0_def l_def s1_def s2_def)
  have c: "cores (asmp_work_fn s) = cores s2"
    unfolding a by (simp add: reschedule_asmp_workq_def)
  have p: "asmp_param (asmp_work_fn s) = asmp_param s"
    unfolding a by (simp add: reschedule_asmp_workq_def p2)
  from post p show ?thesis
    unfolding Let_def s0_def [symmetric] l_def [symmetric] s1_def [symmetric]
    by (simp add: ftb_cores [OF c] num_online_cores [OF c] MAX_CPU_PER_CLUSTERS_def)
qed

theorem counts_stay_in_range_witness:
  "four_little_then_big saturated
   \<and> unat (min_cpus (asmp_param saturated)) \<le> num_online_cluster_cpus saturated CLUSTER_LITTLE
   \<and> unat (min_cpus_hmp (asmp_param saturated)) \<le> num_online_cluster_cpus saturated CLUSTER_BIG
   \<and> num_online_cluster_cpus saturated CLUSTER_BIG \<le> MAX_CPU_PER_CLUSTERS
   \<and> (\<forall>n. kernel_accepts saturated n)
   \<and> num_online_cluster_cpus saturated CLUSTER_LITTLE = 4
   \<and> num_online_cluster_cpus (asmp_work_fn saturated) CLUSTER_LITTLE = 2
   \<and> num_online_cluster_cpus (asmp_work_fn saturated) CLUSTER_BIG \<le> MAX_CPU_PER_CLUSTERS
   \<and> four_little_then_big fast_missed
   \<and> unat (min_cpus (asmp_param fast_missed))
        \<le> num_online_cluster_cpus fast_missed CLUSTER_LITTLE
   \<and> unat (min_cpus_hmp (asmp_param fast_missed))
        \<le> num_online_cluster_cpus fast_missed CLUSTER_BIG
   \<and> num_online_cluster_cpus fast_missed CLUSTER_BIG \<le> MAX_CPU_PER_CLUSTERS
   \<and> issued asmp_work_fn fast_missed = [CpuDown 1, QueueDelayedWork 20]
   \<and> unat (min_cpus (asmp_param fast_missed))
        \<le> num_online_cluster_cpus (asmp_work_fn fast_missed) CLUSTER_LITTLE"
proof -
  have p: "unat (min_cpus (asmp_param saturated)) = 1"
      "unat (min_cpus_hmp (asmp_param saturated)) = 0"
      "unat (min_cpus (asmp_param fast_missed)) = 1"
      "unat (min_cpus_hmp (asmp_param fast_missed)) = 0"
    by (simp_all add: saturated_def fast_missed_def machine_def default_param_def)
  have n: "num_online_cluster_cpus saturated CLUSTER_LITTLE = 4"
      "num_online_cluster_cpus saturated CLUSTER_BIG = 0"
      "num_online_cluster_cpus fast_missed CLUSTER_LITTLE = 2"
      "num_online_cluster_cpus fast_missed CLUSTER_BIG = 0"
    by code_simp+
  have h1: "four_little_then_big saturated" by code_simp
  have h2: "unat (min_cpus (asmp_param saturated))
      \<le> num_online_cluster_cpus saturated CLUSTER_LITTLE"
    by (simp add: p n)
  have h3: "unat (min_cpus_hmp (asmp_param saturated))
      \<le> num_online_cluster_cpus saturated CLUSTER_BIG"
    by (simp add: p n)
  have h4: "num_online_cluster_cpus saturated CLUSTER_BIG \<le> MAX_CPU_PER_CLUSTERS"
    by (simp add: n)
  have h5: "\<forall>n. kernel_accepts saturated n" by (simp add: saturated_def machine_def)
  have h6: "num_online_cluster_cpus
        (little_engine (calc_limits (saturated\<lparr>cycle := cycle saturated + 1\<rparr>))
           (saturated\<lparr>cycle := cycle saturated + 1\<rparr>)) CLUSTER_BIG = 0
      \<and> MAX_CPU_PER_CLUSTERS \<le> num_online_cluster_cpus
        (little_engine (calc_limits (saturated\<lparr>cycle := cycle saturated + 1\<rparr>))
           (saturated\<lparr>cycle := cycle saturated + 1\<rparr>)) CLUSTER_LITTLE"
    by code_simp
  have g1: "four_little_then_big fast_missed" by code_simp
  have g2: "unat (min_cpus (asmp_param fast_missed))
      \<le> num_online_cluster_cpus fast_missed CLUSTER_LITTLE"
    by (simp add: p n)
  have g3: "unat (min_cpus_hmp (asmp_param fast_missed))
      \<le> num_online_cluster_cpus fast_missed CLUSTER_BIG"
    by (simp add: p n)
  have g4: "num_online_cluster_cpus fast_missed CLUSTER_BIG \<le> MAX_CPU_PER_CLUSTERS"
    by (simp add: n)
  have g5: "issued asmp_work_fn fast_missed = [CpuDown 1, QueueDelayedWork 20]" by code_simp
  have g6: "\<not> MAX_CPU_PER_CLUSTERS \<le> num_online_cluster_cpus
        (little_engine (calc_limits (fast_missed\<lparr>cycle := cycle fast_missed + 1\<rparr>))
           (fast_missed\<lparr>cycle := cycle fast_missed + 1\<rparr>)) CLUSTER_LITTLE"
    by code_simp
  from counts_stay_in_range [OF h1 h2 h3 h4, unfolded Let_def] h5 h6
  have a: "num_online_cluster_cpus (asmp_work_fn saturated) CLUSTER_LITTLE = 2"
      "num_online_cluster_cpus (asmp_work_fn saturated) CLUSTER_BIG \<le> MAX_CPU_PER_CLUSTERS"
    by (simp_all only: if_True simp_thms)
  from counts_stay_in_range [OF g1 g2 g3 g4, unfolded Let_def] g6
  have b: "unat (min_cpus (asmp_param fast_missed))
        \<le> num_online_cluster_cpus (asmp_work_fn fast_missed) CLUSTER_LITTLE"
    by (simp only: if_False simp_thms)
  from h1 h2 h3 h4 h5 n(1) a g1 g2 g3 g4 g5 b show ?thesis by blast
qed

subsection \<open>What the sampler gets right\<close>

lemma sample_loop_filter:
  "sample_loop s cl a cpus
     = sample_loop s cl a (filter (\<lambda>c. c \<noteq> 0 \<and> topology_physical_package_id s c = cl) cpus)"
  by (induction cpus arbitrary: a) (simp_all add: Let_def)

lemma sample_loop_fast_rate_cases:
  "fast_rate (sample_loop s cl a cpus) = fast_rate a
   \<or> (\<exists>c\<in>set cpus. c \<noteq> 0 \<and> topology_physical_package_id s c = cl
         \<and> fast_rate (sample_loop s cl a cpus) = cpufreq_quick_get s c)"
proof (induction cpus arbitrary: a)
  case Nil
  then show ?case by simp
next
  case (Cons x xs)
  show ?case
    using Cons.IH [of a] Cons.IH [of "a\<lparr>slow_cpu := x, slow_rate := cpufreq_quick_get s x\<rparr>"]
      Cons.IH [of "a\<lparr>fast_rate := cpufreq_quick_get s x\<rparr>"]
    by (auto simp: Let_def)
qed

lemma sample_loop_fast_rate_upper:
  "slow_rate a \<le> fast_rate a \<Longrightarrow>
     fast_rate a \<le> fast_rate (sample_loop s cl a cpus)
     \<and> (\<forall>c\<in>set cpus. c \<noteq> 0 \<and> topology_physical_package_id s c = cl
           \<longrightarrow> cpufreq_quick_get s c \<le> fast_rate (sample_loop s cl a cpus))"
proof (induction cpus arbitrary: a)
  case Nil
  then show ?case by simp
next
  case (Cons x xs)
  let ?r = "cpufreq_quick_get s x"
  show ?case
  proof (cases "topology_physical_package_id s x = cl \<and> x \<noteq> 0")
    case False
    with Cons.IH [OF Cons.prems] show ?thesis by (auto simp: Let_def)
  next
    case cand: True
    show ?thesis
    proof (cases "?r \<le> slow_rate a")
      case True
      let ?a = "a\<lparr>slow_cpu := x, slow_rate := ?r\<rparr>"
      from True Cons.prems have le: "?r \<le> fast_rate a" by (rule order_trans)
      then have "slow_rate ?a \<le> fast_rate ?a" by simp
      from Cons.IH [OF this]
      have ih: "fast_rate a \<le> fast_rate (sample_loop s cl ?a xs)"
          "\<forall>c\<in>set xs. c \<noteq> 0 \<and> topology_physical_package_id s c = cl
             \<longrightarrow> cpufreq_quick_get s c \<le> fast_rate (sample_loop s cl ?a xs)"
        by simp_all
      from le ih(1) have "?r \<le> fast_rate (sample_loop s cl ?a xs)" by (rule order_trans)
      with cand True ih show ?thesis by (simp add: Let_def)
    next
      case notslow: False
      show ?thesis
      proof (cases "fast_rate a < ?r")
        case True
        let ?a = "a\<lparr>fast_rate := ?r\<rparr>"
        from notslow have "slow_rate ?a \<le> fast_rate ?a" by simp
        from Cons.IH [OF this]
        have ih: "?r \<le> fast_rate (sample_loop s cl ?a xs)"
            "\<forall>c\<in>set xs. c \<noteq> 0 \<and> topology_physical_package_id s c = cl
               \<longrightarrow> cpufreq_quick_get s c \<le> fast_rate (sample_loop s cl ?a xs)"
          by simp_all
        from True ih(1) have "fast_rate a \<le> fast_rate (sample_loop s cl ?a xs)" by simp
        with cand notslow True ih show ?thesis by (simp add: Let_def)
      next
        case False
        then have le: "?r \<le> fast_rate a" by simp
        from Cons.IH [OF Cons.prems]
        have ih: "fast_rate a \<le> fast_rate (sample_loop s cl a xs)"
            "\<forall>c\<in>set xs. c \<noteq> 0 \<and> topology_physical_package_id s c = cl
               \<longrightarrow> cpufreq_quick_get s c \<le> fast_rate (sample_loop s cl a xs)"
          by simp_all
        from le ih(1) have "?r \<le> fast_rate (sample_loop s cl a xs)" by (rule order_trans)
        with cand notslow False ih show ?thesis by (simp add: Let_def)
      qed
    qed
  qed
qed

lemma get_online_core_loop_filter:
  "get_online_core_loop s cl cpus
     = (case filter (\<lambda>c. c \<noteq> 0 \<and> topology_physical_package_id s c = cl \<and> cpu_online s c) cpus
        of [] \<Rightarrow> 0 | c # _ \<Rightarrow> c)"
  by (induction cpus) auto

lemma unplug_candidates_alt:
  "unplug_candidates s cl
     = filter (\<lambda>c. c \<noteq> 0 \<and> topology_physical_package_id s c = cl \<and> cpu_online s c)
         [0..<nr_cpu_ids s]"
  by (auto simp: unplug_candidates_def for_each_online_cpu_def intro: filter_cong)

lemma get_online_core_first_candidate:
  assumes "online_possible s"
  shows "get_online_core s cl = (case unplug_candidates s cl of [] \<Rightarrow> 0 | c # _ \<Rightarrow> c)"
proof -
  have "filter (\<lambda>c. c \<noteq> 0 \<and> topology_physical_package_id s c = cl \<and> cpu_online s c)
          (for_each_possible_cpu s)
      = filter (\<lambda>c. c \<noteq> 0 \<and> topology_physical_package_id s c = cl \<and> cpu_online s c)
          [0..<nr_cpu_ids s]"
    using assms unfolding for_each_possible_cpu_def online_possible_iff
    by (auto intro: filter_cong)
  then show ?thesis
    by (simp add: get_online_core_def get_online_core_loop_filter unplug_candidates_alt)
qed

lemma observed_rates_set:
  "set (observed_rates s cl)
     = cpufreq_quick_get s ` {c. cpu_online s c \<and> topology_physical_package_id s c = cl}"
  by (auto simp: observed_rates_def for_each_online_cpu_def cpu_online_def)

lemma unplug_candidates_set:
  "set (unplug_candidates s cl)
     = {c. c \<noteq> 0 \<and> cpu_online s c \<and> topology_physical_package_id s c = cl}"
  by (auto simp: unplug_candidates_def for_each_online_cpu_def cpu_online_def)

lemma sample_loop_slow_rate_cases:
  "slow_rate (sample_loop s cl a cpus) = slow_rate a
   \<or> (\<exists>c\<in>set cpus. c \<noteq> 0 \<and> topology_physical_package_id s c = cl
         \<and> slow_rate (sample_loop s cl a cpus) = cpufreq_quick_get s c)"
  using sample_loop_slow_cpu [of s cl a cpus] by metis

text \<open>
  The slowest reading of the little pass is the minimum over the online little cores
  when core 0 is one of them.
\<close>

lemma slow_rate_little_minimum:
  assumes "cpu_online s 0" "topology_physical_package_id s 0 = CLUSTER_LITTLE"
  shows "slow_rate (sample_little s) = Min (set (observed_rates s CLUSTER_LITTLE))"
proof -
  define a where "a = \<lparr>slow_cpu = 0, slow_rate = UINT_MAX, fast_rate = cpufreq_quick_get s 0\<rparr>"
  define r where "r = sample_loop s CLUSTER_LITTLE a (for_each_online_cpu s)"
  define f where "f = (if cpufreq_quick_get s 0 < slow_rate r then cpufreq_quick_get s 0
                        else slow_rate r)"
  have sl: "slow_rate (sample_little s) = f"
    by (simp add: sample_little_def Let_def f_def r_def a_def)
  have f0: "f \<le> cpufreq_quick_get s 0" and fr: "f \<le> slow_rate r"
    by (auto simp: f_def)
  have lower: "f \<le> y" if "y \<in> set (observed_rates s CLUSTER_LITTLE)" for y
  proof -
    from that obtain c where c: "cpu_online s c"
        "topology_physical_package_id s c = CLUSTER_LITTLE" "y = cpufreq_quick_get s c"
      by (auto simp: observed_rates_set)
    show ?thesis
    proof (cases "c = 0")
      case True
      with c f0 show ?thesis by simp
    next
      case False
      with c have "c \<in> set (for_each_online_cpu s)"
        by (simp add: for_each_online_cpu_def cpu_online_def)
      then have "slow_rate r \<le> cpufreq_quick_get s c"
        unfolding r_def using False c(2) by (rule sample_loop_slow_rate_lower)
      with fr c(3) show ?thesis by simp
    qed
  qed
  have zero_in: "cpufreq_quick_get s 0 \<in> set (observed_rates s CLUSTER_LITTLE)"
    using assms by (auto simp: observed_rates_set)
  have member: "f \<in> set (observed_rates s CLUSTER_LITTLE)"
  proof (cases "cpufreq_quick_get s 0 < slow_rate r")
    case True
    then show ?thesis using zero_in by (simp add: f_def)
  next
    case False
    then have fe: "f = slow_rate r" and le: "slow_rate r \<le> cpufreq_quick_get s 0"
      by (simp_all add: f_def)
    from sample_loop_slow_rate_cases [of s CLUSTER_LITTLE a "for_each_online_cpu s"]
    consider "slow_rate r = UINT_MAX"
      | c where "c \<in> set (for_each_online_cpu s)"
          "topology_physical_package_id s c = CLUSTER_LITTLE"
          "slow_rate r = cpufreq_quick_get s c"
      unfolding r_def [symmetric] by (auto simp: a_def)
    then show ?thesis
    proof cases
      case 1
      with le uint_max_top [of "cpufreq_quick_get s 0"] have "slow_rate r = cpufreq_quick_get s 0"
        by simp
      with fe zero_in show ?thesis by simp
    next
      case 2
      then show ?thesis
        unfolding fe by (auto simp: observed_rates_set for_each_online_cpu_def)
    qed
  qed
  have "Min (set (observed_rates s CLUSTER_LITTLE)) = f"
    using lower member by (intro Min_eqI) simp_all
  with sl show ?thesis by simp
qed

text \<open>
  In the big pass both readings are right when a big core other than core 0 is online
  and core 0 is not an online big core: \<open>fast_rate\<close> starts from the reading of the
  first core the loop samples.
\<close>

lemma rates_big_extremes:
  assumes op: "online_possible s"
    and ne: "unplug_candidates s CLUSTER_BIG \<noteq> []"
    and z: "\<not> (cpu_online s 0 \<and> topology_physical_package_id s 0 = CLUSTER_BIG)"
  shows "slow_rate (sample_big s) = Min (set (observed_rates s CLUSTER_BIG))
    \<and> fast_rate (sample_big s) = Max (set (observed_rates s CLUSTER_BIG))"
proof -
  from ne obtain c1 rest where cs: "unplug_candidates s CLUSTER_BIG = c1 # rest"
    by (cases "unplug_candidates s CLUSTER_BIG") auto
  have g: "get_online_core s CLUSTER_BIG = c1"
    using get_online_core_first_candidate [OF op, of CLUSTER_BIG] cs by simp
  have c1: "c1 \<noteq> 0" "topology_physical_package_id s c1 = CLUSTER_BIG"
    using cs unplug_candidates_set [of s CLUSTER_BIG] by auto
  define a where "a = \<lparr>slow_cpu = 4, slow_rate = UINT_MAX, fast_rate = cpufreq_quick_get s c1\<rparr>"
  define a1 where "a1 = a\<lparr>slow_cpu := c1, slow_rate := cpufreq_quick_get s c1\<rparr>"
  define r where "r = sample_loop s CLUSTER_BIG a (for_each_online_cpu s)"
  have "r = sample_loop s CLUSTER_BIG a (unplug_candidates s CLUSTER_BIG)"
    unfolding r_def unplug_candidates_def by (rule sample_loop_filter)
  also have "\<dots> = sample_loop s CLUSTER_BIG a1 rest"
    unfolding cs using c1 uint_max_top [of "cpufreq_quick_get s c1"]
    by (simp add: a_def a1_def Let_def)
  finally have r1: "r = sample_loop s CLUSTER_BIG a1 rest" .
  have "{c. cpu_online s c \<and> topology_physical_package_id s c = CLUSTER_BIG}
      = {c. c \<noteq> 0 \<and> cpu_online s c \<and> topology_physical_package_id s c = CLUSTER_BIG}"
  proof (intro set_eqI iffI; clarify)
    fix c assume c: "cpu_online s c" "topology_physical_package_id s c = CLUSTER_BIG"
    with z have "c \<noteq> 0" by (cases "c = 0") simp_all
    with c show "c \<noteq> 0 \<and> cpu_online s c \<and> topology_physical_package_id s c = CLUSTER_BIG"
      by simp
  qed
  then have obs: "set (observed_rates s CLUSTER_BIG)
      = cpufreq_quick_get s ` set (unplug_candidates s CLUSTER_BIG)"
    unfolding observed_rates_set unplug_candidates_set by simp
  have rest: "c \<noteq> 0 \<and> topology_physical_package_id s c = CLUSTER_BIG" if "c \<in> set rest" for c
    using that cs unplug_candidates_set [of s CLUSTER_BIG] by auto
  have p: "slow_rate a1 \<le> fast_rate a1" by (simp add: a1_def a_def)
  from sample_loop_fast_rate_upper [OF p, of s CLUSTER_BIG rest]
  have up: "cpufreq_quick_get s c1 \<le> fast_rate r"
      "\<forall>c\<in>set rest. cpufreq_quick_get s c \<le> fast_rate r"
    unfolding r1 [symmetric] using rest by (simp_all add: a1_def a_def)
  from sample_loop_fast_rate_cases [of s CLUSTER_BIG a1 rest]
  have "fast_rate r = cpufreq_quick_get s c1 \<or> (\<exists>c\<in>set rest. fast_rate r = cpufreq_quick_get s c)"
    unfolding r1 [symmetric] by (auto simp: a1_def a_def)
  then have fin: "fast_rate r \<in> set (observed_rates s CLUSTER_BIG)"
    unfolding obs cs by auto
  have "Max (set (observed_rates s CLUSTER_BIG)) = fast_rate r"
    using up fin unfolding obs cs by (intro Max_eqI) auto
  moreover have "fast_rate (sample_big s) = fast_rate r"
    by (simp add: sample_big_def Let_def r_def a_def g)
  ultimately have fast: "fast_rate (sample_big s) = Max (set (observed_rates s CLUSTER_BIG))"
    by simp
  have lo: "slow_rate r \<le> cpufreq_quick_get s c"
    if "c \<in> set (unplug_candidates s CLUSTER_BIG)" for c
  proof -
    from that have "c \<in> set (for_each_online_cpu s)" "c \<noteq> 0"
        "topology_physical_package_id s c = CLUSTER_BIG"
      by (simp_all add: unplug_candidates_def)
    then show ?thesis unfolding r_def by (rule sample_loop_slow_rate_lower)
  qed
  then have lo1: "slow_rate r \<le> cpufreq_quick_get s c1" by (simp add: cs)
  then have "\<not> cpufreq_quick_get s c1 < slow_rate r" by (simp add: not_less)
  then have sl: "slow_rate (sample_big s) = slow_rate r"
    by (simp add: sample_big_def Let_def r_def a_def g)
  from sample_loop_slow_rate_cases [of s CLUSTER_BIG a "for_each_online_cpu s"]
  consider "slow_rate r = UINT_MAX"
    | c where "c \<in> set (unplug_candidates s CLUSTER_BIG)" "slow_rate r = cpufreq_quick_get s c"
    unfolding r_def [symmetric] by (auto simp: a_def unplug_candidates_def)
  then have sin: "slow_rate r \<in> set (observed_rates s CLUSTER_BIG)"
  proof cases
    case 1
    with lo1 uint_max_top [of "cpufreq_quick_get s c1"]
    have "slow_rate r = cpufreq_quick_get s c1" by simp
    then show ?thesis unfolding obs cs by simp
  next
    case 2
    then show ?thesis unfolding obs by auto
  qed
  have "Min (set (observed_rates s CLUSTER_BIG)) = slow_rate r"
    using lo sin unfolding obs by (intro Min_eqI) auto
  with sl fast show ?thesis by simp
qed

end
